(* ===== verification/Prelude.thy ===== *)
theory Prelude
  imports Main "HOL-Library.Word" "HOL-Library.Multiset" "HOL-Library.Char_ord"
    "HOL-Library.List_Lexorder"
begin

text \<open>
  Shared vocabulary of the development: machine integer types, exceptions and outcomes as
  values, \<open>std::to_string\<close>, and generic facts on lists of lists (the deques of the queue)
  and on lists indexed by address (the heap of message entries).
\<close>

section \<open>Types shared by all components\<close>

type_synonym u8 = "8 word"
type_synonym u64 = "64 word"

text \<open>
  A time point of \<open>std::chrono::system_clock\<close>, in nanoseconds since the epoch. The code
  computes with a signed 64-bit count; overflow of that count is undefined behaviour and out
  of reach for dates before the year 2262, so the model is an unbounded integer.
\<close>

type_synonym timestamp = int

text \<open>
  \<open>std::chrono::milliseconds(n)\<close> for an unsigned 64-bit \<open>n\<close>: the count is converted to
  the signed representation of the duration, then scaled to nanoseconds when it is added to
  a time point.
\<close>

definition milliseconds :: "u64 \<Rightarrow> timestamp" where
  "milliseconds n = sint n * 1000000"

text \<open>The exceptions that the program throws, with the text \<open>what()\<close> returns.\<close>

datatype exn =
    runtime_error string
  | length_error string
  | logic_error string
  | invalid_argument string
  | out_of_range string
  | parse_error string nat

text \<open>
  What a call does: it returns, throws, waits on a condition (the thread sleeps with the
  lock released) or runs into behaviour the language leaves undefined.
\<close>

datatype 'a outcome =
    Return 'a
  | Throw exn
  | Wait
  | Undefined

named_theorems frame_simps \<open>fields that an operation leaves unchanged\<close>
named_theorems inv_intros \<open>operations that preserve the queue invariant\<close>

section \<open>Decimal numbers\<close>

text \<open>\<open>std::to_string\<close> on an unsigned integer.\<close>

definition digit_char :: "nat \<Rightarrow> char" where
  "digit_char d = char_of (48 + d)"

fun to_string :: "nat \<Rightarrow> string" where
  "to_string n =
     (if n < 10 then [digit_char n] else to_string (n div 10) @ [digit_char (n mod 10)])"

declare to_string.simps [simp del]

definition is_digit :: "char \<Rightarrow> bool" where
  "is_digit c \<longleftrightarrow> 48 \<le> (of_char c :: nat) \<and> (of_char c :: nat) \<le> 57"

definition digit_val :: "char \<Rightarrow> nat" where
  "digit_val c = of_char c - 48"

definition decimal_value :: "string \<Rightarrow> nat" where
  "decimal_value s = foldl (\<lambda>a c. a * 10 + digit_val c) 0 s"

lemma of_char_digit_char [simp]: "d < 10 \<Longrightarrow> (of_char (digit_char d) :: nat) = 48 + d"
  by (simp add: digit_char_def of_char_of)

lemma digit_val_digit_char [simp]: "d < 10 \<Longrightarrow> digit_val (digit_char d) = d"
  by (simp add: digit_val_def)

lemma is_digit_digit_char [simp]: "d < 10 \<Longrightarrow> is_digit (digit_char d)"
  by (simp add: is_digit_def)

lemma to_string_not_Nil [simp]: "to_string n \<noteq> []"
  by (subst to_string.simps) simp

lemma decimal_value_snoc: "decimal_value (s @ [c]) = decimal_value s * 10 + digit_val c"
  by (simp add: decimal_value_def)

lemma decimal_value_to_string [simp]: "decimal_value (to_string n) = n"
proof (induction n rule: to_string.induct)
  case (1 n)
  show ?case
  proof (cases "n < 10")
    case True
    then show ?thesis by (subst to_string.simps) (simp add: decimal_value_def)
  next
    case False
    with 1 show ?thesis
      by (subst to_string.simps) (simp add: decimal_value_snoc)
  qed
qed

lemma to_string_inject [simp]: "to_string m = to_string n \<longleftrightarrow> m = n"
  by (metis decimal_value_to_string)

lemma to_string_digits: "c \<in> set (to_string n) \<Longrightarrow> is_digit c"
proof (induction n rule: to_string.induct)
  case (1 n)
  show ?case
  proof (cases "n < 10")
    case True
    with 1(2) show ?thesis by (subst (asm) to_string.simps) simp
  next
    case False
    with 1(2) have "c \<in> set (to_string (n div 10)) \<or> c = digit_char (n mod 10)"
      by (subst (asm) to_string.simps) auto
    with 1(1) False show ?thesis by fastforce
  qed
qed

end
