(* ===== verification/Std_Containers.thy ===== *)
theory Std_Containers
  imports Prelude
begin

text \<open>
  The standard containers the program uses, as far as it uses them: \<open>std::map\<close> (a list
  of pairs with strictly ascending keys, the order its iterators visit), a vector of deques,
  and a \<open>std::multiset\<close> of addresses ordered by a key that lives in the pointed-to
  object. The laws of the map are stated once as the locale \<open>ordered_map\<close>; what its
  clients need (sizes, membership under insertion and removal) is proved from the laws.
\<close>

section \<open>The map interface\<close>

locale ordered_map =
  fixes mfind :: "'m \<Rightarrow> 'k::linorder \<Rightarrow> 'v option"
    and mput :: "'k \<Rightarrow> 'v \<Rightarrow> 'm \<Rightarrow> 'm"
    and merase :: "'k \<Rightarrow> 'm \<Rightarrow> 'm"
    and mentries :: "'m \<Rightarrow> ('k \<times> 'v) list"
    and mok :: "'m \<Rightarrow> bool"
  assumes ok_ascending: "mok m \<Longrightarrow> sorted_wrt (<) (map fst (mentries m))"
    and find_entries: "mok m \<Longrightarrow> mfind m k = map_of (mentries m) k"
    and ok_put: "mok m \<Longrightarrow> mok (mput k v m)"
    and ok_erase: "mok m \<Longrightarrow> mok (merase k m)"
    and find_put: "mok m \<Longrightarrow> mfind (mput k v m) = (mfind m)(k \<mapsto> v)"
    and find_erase: "mok m \<Longrightarrow> mfind (merase k m) = (mfind m)(k := None)"
begin

lemma distinct_keys: "mok m \<Longrightarrow> distinct (map fst (mentries m))"
  using ok_ascending strict_sorted_iff by blast

lemma entry_iff: "mok m \<Longrightarrow> (k, v) \<in> set (mentries m) \<longleftrightarrow> mfind m k = Some v"
  by (simp add: find_entries distinct_keys map_of_eq_Some_iff)

lemma set_entries_put:
  "mok m \<Longrightarrow> mfind m k = None \<Longrightarrow> set (mentries (mput k v m)) = insert (k, v) (set (mentries m))"
  by (auto simp: entry_iff ok_put find_put split: if_splits)

lemma set_entries_erase:
  "mok m \<Longrightarrow> set (mentries (merase k m)) = {e \<in> set (mentries m). fst e \<noteq> k}"
  by (auto simp: entry_iff ok_erase find_erase split: if_splits)

lemma distinct_entries: "mok m \<Longrightarrow> distinct (mentries m)"
  by (metis distinct_keys distinct_map)

lemma size_card: "mok m \<Longrightarrow> length (mentries m) = card (set (mentries m))"
  by (simp add: distinct_entries distinct_card)

lemma size_put:
  "mok m \<Longrightarrow> mfind m k = None \<Longrightarrow> length (mentries (mput k v m)) = Suc (length (mentries m))"
  by (simp add: size_card ok_put set_entries_put entry_iff)

lemma size_erase:
  assumes ok: "mok m" and hit: "mfind m k = Some v"
  shows "Suc (length (mentries (merase k m))) = length (mentries m)"
proof -
  have "set (mentries m) = insert (k, v) (set (mentries (merase k m)))"
    and "(k, v) \<notin> set (mentries (merase k m))"
    using hit by (auto simp: set_entries_erase[OF ok] entry_iff[OF ok])
  then show ?thesis
    using ok by (simp add: size_card ok_erase)
qed

lemma erase_put_commute:
  "mok m \<Longrightarrow> k \<noteq> k' \<Longrightarrow> mfind (merase k (mput k' v m)) = mfind (mput k' v (merase k m))"
  by (simp add: find_put find_erase ok_put ok_erase fun_upd_twist)

end

section \<open>A map as an ascending list of pairs\<close>

type_synonym ('k, 'v) std_map = "('k \<times> 'v) list"

definition map_find :: "('k::linorder, 'v) std_map \<Rightarrow> 'k \<Rightarrow> 'v option" where
  "map_find m k = map_of m k"

fun map_put :: "'k::linorder \<Rightarrow> 'v \<Rightarrow> ('k, 'v) std_map \<Rightarrow> ('k, 'v) std_map" where
  "map_put k v [] = [(k, v)]"
| "map_put k v ((k', v') # m) =
     (if k < k' then (k, v) # (k', v') # m
      else if k = k' then (k, v) # m
      else (k', v') # map_put k v m)"

definition map_erase :: "'k::linorder \<Rightarrow> ('k, 'v) std_map \<Rightarrow> ('k, 'v) std_map" where
  "map_erase k m = filter (\<lambda>e. fst e \<noteq> k) m"

definition map_ok :: "('k::linorder, 'v) std_map \<Rightarrow> bool" where
  "map_ok m \<longleftrightarrow> sorted_wrt (<) (map fst m)"

lemma fst_map_put: "fst ` set (map_put k v m) = insert k (fst ` set m)"
  by (induction k v m rule: map_put.induct) auto

lemma map_ok_put: "map_ok m \<Longrightarrow> map_ok (map_put k v m)"
proof (induction k v m rule: map_put.induct)
  case (2 k v k' v' m)
  have keys: "x \<in> fst ` set (map_put k v m) \<Longrightarrow> x = k \<or> x \<in> fst ` set m" for x
    by (simp add: fst_map_put)
  show ?case
    using 2 keys by (fastforce simp: map_ok_def)
qed (simp add: map_ok_def)

lemma map_find_put: "map_ok m \<Longrightarrow> map_find (map_put k v m) = (map_find m)(k \<mapsto> v)"
proof (induction k v m rule: map_put.induct)
  case (2 k v k' v' m)
  from 2(2) have "map_ok m" by (simp add: map_ok_def)
  with 2(1) show ?case
    by (cases "k < k'"; cases "k = k'") (auto simp: fun_eq_iff map_find_def)
qed (simp add: map_find_def fun_eq_iff)

lemma map_ok_erase: "map_ok m \<Longrightarrow> map_ok (map_erase k m)"
  by (induction m) (auto simp: map_ok_def map_erase_def)

lemma map_find_erase: "map_find (map_erase k m) = (map_find m)(k := None)"
  by (induction m) (auto simp: map_find_def map_erase_def fun_eq_iff)

interpretation smap: ordered_map map_find map_put map_erase "\<lambda>m. m" map_ok
  by unfold_locales
    (simp_all add: map_ok_put map_ok_erase map_find_put map_find_erase, simp_all add: map_ok_def map_find_def)

lemma map_ok_Nil [simp]: "map_ok []"
  by (simp add: map_ok_def)

lemma map_find_Nil [simp]: "map_find [] k = None"
  by (simp add: map_find_def)

lemmas map_simps = smap.set_entries_put smap.set_entries_erase smap.size_put
  smap.find_put smap.find_erase smap.ok_put smap.ok_erase

section \<open>A vector of deques\<close>

text \<open>
  A deque is a list from front to back; the vector is a list of deques. Updating the deque
  at one index changes the multiset of all elements only there.
\<close>

abbreviation all_in :: "'a list list \<Rightarrow> 'a list" where
  "all_in qs \<equiv> concat qs"

lemma mset_concat_update:
  "i < length qs \<Longrightarrow> mset (concat (qs[i := xs])) + mset (qs ! i) = mset (concat qs) + mset xs"
  by (induction qs arbitrary: i) (auto split: nat.splits simp: ac_simps)

definition push_front :: "nat \<Rightarrow> 'a \<Rightarrow> 'a list list \<Rightarrow> 'a list list" where
  "push_front i x qs = qs[i := x # qs ! i]"

definition push_back :: "nat \<Rightarrow> 'a \<Rightarrow> 'a list list \<Rightarrow> 'a list list" where
  "push_back i x qs = qs[i := qs ! i @ [x]]"

definition erase_first :: "nat \<Rightarrow> 'a \<Rightarrow> 'a list list \<Rightarrow> 'a list list" where
  "erase_first i x qs = qs[i := remove1 x (qs ! i)]"

lemma length_push [simp]:
  "length (push_front i x qs) = length qs"
  "length (push_back i x qs) = length qs"
  "length (erase_first i x qs) = length qs"
  by (simp_all add: push_front_def push_back_def erase_first_def)

lemma nth_push:
  "j < length qs \<Longrightarrow> push_front i x qs ! j = (if j = i then x # qs ! i else qs ! j)"
  "j < length qs \<Longrightarrow> push_back i x qs ! j = (if j = i then qs ! i @ [x] else qs ! j)"
  "j < length qs \<Longrightarrow> erase_first i x qs ! j = (if j = i then remove1 x (qs ! i) else qs ! j)"
  by (auto simp: push_front_def push_back_def erase_first_def nth_list_update)

lemma mset_push_front [simp]:
  "i < length qs \<Longrightarrow> mset (concat (push_front i x qs)) = add_mset x (mset (concat qs))"
  using mset_concat_update[of i qs "x # qs ! i"] by (simp add: push_front_def)

lemma mset_push_back [simp]:
  "i < length qs \<Longrightarrow> mset (concat (push_back i x qs)) = add_mset x (mset (concat qs))"
  using mset_concat_update[of i qs "qs ! i @ [x]"] by (simp add: push_back_def)

lemma mset_erase_first [simp]:
  assumes "i < length qs" and "x \<in> set (qs ! i)"
  shows "add_mset x (mset (concat (erase_first i x qs))) = mset (concat qs)"
proof -
  have "mset (concat (erase_first i x qs)) + mset (qs ! i)
      = mset (concat qs) + (mset (qs ! i) - {#x#})"
    using mset_concat_update[OF assms(1), of "remove1 x (qs ! i)"] by (simp add: erase_first_def)
  moreover have "mset (qs ! i) = add_mset x (mset (qs ! i) - {#x#})"
    using assms(2) by simp
  ultimately show ?thesis
    by (metis add_right_cancel union_mset_add_mset_left union_mset_add_mset_right)
qed

text \<open>The loop of \<open>popImpl\<close>: the back of the first deque that is not empty.\<close>

fun pop_first :: "'a list list \<Rightarrow> ('a \<times> 'a list list) option" where
  "pop_first [] = None"
| "pop_first (q # qs) =
     (if q \<noteq> [] then Some (last q, butlast q # qs)
      else map_option (\<lambda>(x, qs'). (x, q # qs')) (pop_first qs))"

lemma pop_first_None: "pop_first qs = None \<longleftrightarrow> concat qs = []"
  by (induction qs) auto

lemma pop_first_mset:
  "pop_first qs = Some (x, qs') \<Longrightarrow> mset (concat qs) = add_mset x (mset (concat qs'))"
proof (induction qs arbitrary: qs')
  case (Cons q qs)
  have "mset q = add_mset (last q) (mset (butlast q))" if "q \<noteq> []"
  proof -
    have "mset q = mset (butlast q @ [last q])" using that by simp
    then show ?thesis by (simp del: append_butlast_last_id)
  qed
  with Cons show ?case by (auto split: if_splits)
qed simp

lemma pop_first_length: "pop_first qs = Some (x, qs') \<Longrightarrow> length qs' = length qs"
  by (induction qs arbitrary: qs') (auto split: if_splits)

text \<open>What it picks: the back of a deque in front of which all are empty.\<close>

lemma pop_first_spec:
  "pop_first qs = Some (x, qs') \<Longrightarrow>
     \<exists>i < length qs. (\<forall>j < i. qs ! j = []) \<and> qs ! i \<noteq> [] \<and> x = last (qs ! i) \<and>
       qs' = qs[i := butlast (qs ! i)]"
proof (induction qs arbitrary: qs')
  case (Cons q qs)
  show ?case
  proof (cases "q = []")
    case False
    with Cons.prems show ?thesis by (intro exI[of _ 0]) auto
  next
    case True
    with Cons.prems obtain rs where rs: "pop_first qs = Some (x, rs)" "qs' = q # rs" by auto
    from Cons.IH[OF rs(1)] obtain i where "i < length qs" "\<forall>j < i. qs ! j = []" "qs ! i \<noteq> []"
      "x = last (qs ! i)" "rs = qs[i := butlast (qs ! i)]" by blast
    with True rs(2) show ?thesis
      by (intro exI[of _ "Suc i"]) (auto simp: nth_Cons split: nat.splits)
  qed
qed simp

subsection \<open>First in, first out\<close>

text \<open>
  The contract of a work list with lanes: \<open>put\<close> adds at the end of a lane, \<open>take\<close> serves the
  lanes in order. From the laws: taking until the list is empty serves every lane in order.
\<close>

fun drain :: "('q \<Rightarrow> ('a \<times> 'q) option) \<Rightarrow> nat \<Rightarrow> 'q \<Rightarrow> 'a list" where
  "drain tk 0 q = []"
| "drain tk (Suc n) q = (case tk q of None \<Rightarrow> [] | Some (x, q') \<Rightarrow> x # drain tk n q')"

locale lane_fifo =
  fixes put :: "nat \<Rightarrow> 'a \<Rightarrow> 'q \<Rightarrow> 'q" and tk :: "'q \<Rightarrow> ('a \<times> 'q) option"
    and lanes :: "'q \<Rightarrow> 'a list list"
  assumes lanes_put: "i < length (lanes q) \<Longrightarrow> lanes (put i x q) = (lanes q)[i := lanes q ! i @ [x]]"
    and tk_None: "tk q = None \<longleftrightarrow> concat (lanes q) = []"
    and tk_Some: "tk q = Some (x, q') \<Longrightarrow> concat (lanes q) = x # concat (lanes q')"
begin

lemma drain_take: "drain tk n q = take n (concat (lanes q))"
proof (induction n arbitrary: q)
  case (Suc n)
  show ?case
  proof (cases "tk q")
    case None
    then show ?thesis using tk_None[of q] by simp
  next
    case (Some xq)
    then show ?thesis using tk_Some[of q "fst xq" "snd xq"] Suc[of "snd xq"] by (cases xq) simp
  qed
qed simp

lemma lanes_puts:
  "i < length (lanes q) \<Longrightarrow> lanes (fold (put i) xs q) = (lanes q)[i := lanes q ! i @ xs]"
  by (induction xs arbitrary: q) (simp_all add: lanes_put)

lemma burst:
  assumes "i < length (lanes q)" and "concat (lanes q) = []"
  shows "drain tk (length xs) (fold (put i) xs q) = xs"
proof -
  have empty: "\<forall>l \<in> set (lanes q). l = []" using assms(2) by auto
  have "concat ((lanes q)[i := xs]) = xs" if "\<forall>l \<in> set ls. l = []" "i < length ls" "ls = lanes q" for ls
  proof -
    have "concat (take i ls) = []" "concat (drop (Suc i) ls) = []"
      using that(1) in_set_takeD in_set_dropD by fastforce+
    moreover have "concat ((lanes q)[i := xs]) = concat (take i ls) @ xs @ concat (drop (Suc i) ls)"
      using that(2,3) by (simp add: upd_conv_take_nth_drop)
    ultimately show ?thesis by (simp only: append_Nil append_Nil2)
  qed
  moreover have "lanes q ! i @ xs = xs" using empty assms(1) nth_mem by fastforce
  ultimately show ?thesis
    using empty assms(1) by (simp only: drain_take lanes_puts) simp
qed

end

interpretation deques: lane_fifo push_front pop_first "map rev"
proof
  show "map rev (push_front i x qs) = (map rev qs)[i := map rev qs ! i @ [x]]"
    if "i < length (map rev qs)" for i and x :: 'a and qs
    using that by (simp add: push_front_def map_update)
  show "pop_first qs = None \<longleftrightarrow> concat (map rev qs) = []" for qs :: "'a list list"
    by (auto simp: pop_first_None)
  show "concat (map rev qs) = x # concat (map rev qs')" if "pop_first qs = Some (x, qs')"
    for x :: 'a and qs qs'
    using that
  proof (induction qs arbitrary: qs')
    case (Cons q qs)
    have "rev q = last q # rev (butlast q)" if "q \<noteq> []"
      using that by (induction q rule: rev_induct) auto
    with Cons show ?case by (auto split: if_splits)
  qed simp
qed

section \<open>A multiset ordered by a key in the pointed-to object\<close>

text \<open>
  \<open>std::multiset::insert\<close> puts the new element behind the elements that compare equal.
\<close>

fun mset_insert :: "('a \<Rightarrow> 'k::linorder) \<Rightarrow> 'a \<Rightarrow> 'a list \<Rightarrow> 'a list" where
  "mset_insert f x [] = [x]"
| "mset_insert f x (y # ys) = (if f x < f y then x # y # ys else y # mset_insert f x ys)"

lemma mset_mset_insert [simp]: "mset (mset_insert f x ys) = add_mset x (mset ys)"
  by (induction f x ys rule: mset_insert.induct) auto

lemma set_mset_insert [simp]: "set (mset_insert f x ys) = insert x (set ys)"
  by (induction f x ys rule: mset_insert.induct) auto

lemma distinct_mset_insert [simp]:
  "distinct (mset_insert f x ys) \<longleftrightarrow> x \<notin> set ys \<and> distinct ys"
  by (induction f x ys rule: mset_insert.induct) auto

lemma sorted_mset_insert [simp]:
  "sorted (map f (mset_insert f x ys)) \<longleftrightarrow> sorted (map f ys)"
  by (induction f x ys rule: mset_insert.induct) auto

lemma hd_mset_insert:
  "sorted (map f ys) \<Longrightarrow> hd (mset_insert f x ys) = x \<longleftrightarrow> (ys = [] \<or> hd ys = x \<or> f x < f (hd ys))"
  by (cases ys) auto

lemma mset_insert_cong:
  "(\<And>y. y \<in> insert x (set ys) \<Longrightarrow> f y = g y) \<Longrightarrow> mset_insert f x ys = mset_insert g x ys"
  by (induction ys) auto

end
