(* ===== verification/Queue_Model.thy ===== *)
theory Queue_Model
  imports Std_Containers
begin

text \<open>
  The class \<open>Queue\<close> of \<open>server/Queue.hpp\<close> and \<open>server/Queue.cpp\<close>: its state and every
  operation. Message entries live in a heap, a list indexed by address; the map, the deques,
  the delay set and the pool hold addresses, as the code holds pointers. The clock and the
  random generator are arguments: \<open>now\<close> is what \<open>system_clock::now()\<close> returns, \<open>rnd\<close> what
  \<open>m_rng()\<close> returns. Every operation runs under \<open>m_mutex\<close>, so it is one transition.
\<close>

section \<open>State\<close>

datatype MsgState_t = MSG_QUEUED | MSG_RUNNING | MSG_DELAYED | MSG_FAILED

record Msg_t =
  msg_id :: string
  msg_token :: string

record MsgEntry_t =
  priority :: u8
  boosted :: bool
  fail_count :: u8
  state :: MsgState_t
  state_ts :: timestamp
  message :: Msg_t

type_synonym ptr = nat

definition MsgEntry_new :: "string \<Rightarrow> u8 \<Rightarrow> timestamp \<Rightarrow> MsgEntry_t" where
  "MsgEntry_new a_id a_priority now =
     \<lparr> priority = a_priority, boosted = False, fail_count = 0, state = MSG_QUEUED,
       state_ts = now, message = \<lparr> msg_id = a_id, msg_token = [] \<rparr> \<rparr>"

definition MsgEntry_reset :: "MsgEntry_t \<Rightarrow> string \<Rightarrow> u8 \<Rightarrow> timestamp \<Rightarrow> MsgEntry_t" where
  "MsgEntry_reset e a_id a_priority now =
     e\<lparr> priority := a_priority, boosted := False, fail_count := 0, state := MSG_QUEUED,
        state_ts := now, message := (message e)\<lparr> msg_id := a_id, msg_token := [] \<rparr> \<rparr>"

text \<open>
  A \<open>std::condition_variable\<close>: how many threads sleep on it, and how many have been woken
  and wait to take the mutex again.
\<close>

record condvar =
  cv_waiting :: nat
  cv_woken :: nat

definition cv_wait :: "condvar \<Rightarrow> condvar" where
  "cv_wait c = c\<lparr> cv_waiting := cv_waiting c + 1 \<rparr>"

definition notify_one :: "condvar \<Rightarrow> condvar" where
  "notify_one c =
     (if cv_waiting c = 0 then c
      else c\<lparr> cv_waiting := cv_waiting c - 1, cv_woken := cv_woken c + 1 \<rparr>)"

definition notify_all :: "condvar \<Rightarrow> condvar" where
  "notify_all c = c\<lparr> cv_waiting := 0, cv_woken := cv_woken c + cv_waiting c \<rparr>"

definition cv_resume :: "condvar \<Rightarrow> condvar" where
  "cv_resume c = c\<lparr> cv_woken := cv_woken c - 1 \<rparr>"

text \<open>
  The fields of the class, the heap of entries it allocated, and for the error callback
  either the null pointer or the messages it has been called with so far.
\<close>

record Queue =
  m_capacity :: u64
  m_fail_timeout :: u64
  m_max_retries :: u64
  m_boost_timeout :: u64
  m_poll_interval :: u64
  m_err_cb :: "string list option"
  m_count_queued :: u64
  m_count_failed :: u64
  m_run :: bool
  m_mon_cv :: condvar
  m_delay_cv :: condvar
  m_pop_cv :: condvar
  m_msg_pool :: "ptr list"
  m_msg_map :: "(string, ptr) std_map"
  m_msg_delay :: "ptr list"
  m_queue_list :: "ptr list list"
  m_heap :: "MsgEntry_t list"

definition Queue_create ::
  "u8 \<Rightarrow> u64 \<Rightarrow> u64 \<Rightarrow> u64 \<Rightarrow> u64 \<Rightarrow> u64 \<Rightarrow> bool \<Rightarrow> Queue" where
  "Queue_create a_priority_count a_msg_capacity a_msg_ack_timeout_msec a_msg_max_retries
     a_msg_boost_timeout_msec a_monitor_period_msec a_err_cb =
     \<lparr> m_capacity = a_msg_capacity, m_fail_timeout = a_msg_ack_timeout_msec,
       m_max_retries = a_msg_max_retries, m_boost_timeout = a_msg_boost_timeout_msec,
       m_poll_interval = a_monitor_period_msec,
       m_err_cb = (if a_err_cb then Some [] else None),
       m_count_queued = 0, m_count_failed = 0, m_run = True,
       m_mon_cv = \<lparr> cv_waiting = 0, cv_woken = 0 \<rparr>,
       m_delay_cv = \<lparr> cv_waiting = 0, cv_woken = 0 \<rparr>,
       m_pop_cv = \<lparr> cv_waiting = 0, cv_woken = 0 \<rparr>,
       m_msg_pool = [], m_msg_map = [], m_msg_delay = [],
       m_queue_list = replicate (unat a_priority_count) [], m_heap = [] \<rparr>"

definition entry :: "Queue \<Rightarrow> ptr \<Rightarrow> MsgEntry_t" where
  "entry q p = m_heap q ! p"

definition set_entry :: "ptr \<Rightarrow> MsgEntry_t \<Rightarrow> Queue \<Rightarrow> Queue" where
  "set_entry p e q = q\<lparr> m_heap := (m_heap q)[p := e] \<rparr>"

definition setErrorCallback :: "bool \<Rightarrow> Queue \<Rightarrow> Queue" where
  "setErrorCallback a_callback q = q\<lparr> m_err_cb := (if a_callback then Some [] else None) \<rparr>"

definition call_err_cb :: "string \<Rightarrow> Queue \<Rightarrow> Queue" where
  "call_err_cb msg q = q\<lparr> m_err_cb := map_option (\<lambda>l. l @ [msg]) (m_err_cb q) \<rparr>"

section \<open>Private methods\<close>

definition getMsgEntry :: "Queue \<Rightarrow> string \<Rightarrow> u8 \<Rightarrow> timestamp \<Rightarrow> ptr \<times> Queue" where
  "getMsgEntry q a_id a_priority now =
     (if m_msg_pool q = [] then
        (length (m_heap q), q\<lparr> m_heap := m_heap q @ [MsgEntry_new a_id a_priority now] \<rparr>)
      else
        (let msg = last (m_msg_pool q);
             q1 = set_entry msg (MsgEntry_reset (entry q msg) a_id a_priority now) q
         in (msg, q1\<lparr> m_msg_pool := butlast (m_msg_pool q1) \<rparr>)))"

text \<open>The common tail of \<open>push\<close>, \<open>ackImpl\<close>: into the deque at the front, count, notify.\<close>

definition enqueue_front :: "ptr \<Rightarrow> u8 \<Rightarrow> Queue \<Rightarrow> Queue" where
  "enqueue_front msg a_priority q =
     q\<lparr> m_queue_list := push_front (unat a_priority) msg (m_queue_list q),
        m_count_queued := m_count_queued q + 1,
        m_pop_cv := notify_one (m_pop_cv q) \<rparr>"

definition insertDelayedMsg :: "Queue \<Rightarrow> ptr \<Rightarrow> timestamp \<Rightarrow> Queue" where
  "insertDelayedMsg q a_msg a_requeue_ts =
     (let q1 = set_entry a_msg ((entry q a_msg)\<lparr> state := MSG_DELAYED, state_ts := a_requeue_ts \<rparr>) q;
          ds = mset_insert (\<lambda>p. state_ts (entry q1 p)) a_msg (m_msg_delay q1);
          q2 = q1\<lparr> m_msg_delay := ds \<rparr>
      in if hd ds = a_msg then q2\<lparr> m_delay_cv := notify_one (m_delay_cv q2) \<rparr> else q2)"

text \<open>
  One round of \<open>popImpl\<close>: with nothing queued the thread goes to sleep (\<open>Wait\<close>); woken, it
  tests the condition again (\<open>pop_resume\<close> below). The result is a reference to the message in
  the entry, that is the entry's address.
\<close>

definition popImpl :: "Queue \<Rightarrow> timestamp \<Rightarrow> u64 \<Rightarrow> ptr outcome \<times> Queue" where
  "popImpl q now rnd =
     (if m_count_queued q = 0 then (Wait, q\<lparr> m_pop_cv := cv_wait (m_pop_cv q) \<rparr>)
      else (case pop_first (m_queue_list q) of
              None \<Rightarrow> (Throw (logic_error ''All queues empty when m_count_queued > 0''), q)
            | Some (e, qs) \<Rightarrow>
                (let q1 = q\<lparr> m_queue_list := qs \<rparr>;
                     en = entry q1 e;
                     q2 = set_entry e (en\<lparr> state := MSG_RUNNING, state_ts := now,
                            message := (message en)\<lparr> msg_token := to_string (unat rnd) \<rparr> \<rparr>) q1
                 in (Return e, q2\<lparr> m_count_queued := m_count_queued q2 - 1 \<rparr>))))"

definition ackImpl ::
  "Queue \<Rightarrow> string \<Rightarrow> string \<Rightarrow> bool \<Rightarrow> u64 \<Rightarrow> timestamp \<Rightarrow> unit outcome \<times> Queue" where
  "ackImpl q a_id a_token a_requeue a_delay now =
     (case map_find (m_msg_map q) a_id of
        None \<Rightarrow> (Throw (runtime_error ''No message found matching ID''), q)
      | Some e \<Rightarrow>
          if msg_token (message (entry q e)) \<noteq> a_token then
            (Throw (runtime_error ''Invalid message token''), q)
          else if state (entry q e) \<noteq> MSG_RUNNING then
            (Throw (runtime_error ''Invalid message state''), q)
          else if a_requeue then
            (let en = entry q e;
                 en1 = en\<lparr> boosted := False, message := (message en)\<lparr> msg_token := [] \<rparr> \<rparr>;
                 q1 = set_entry e en1 q
             in if a_delay \<noteq> 0 then (Return (), insertDelayedMsg q1 e (now + milliseconds a_delay))
                else (Return (),
                      enqueue_front e (priority en1)
                        (set_entry e (en1\<lparr> state := MSG_QUEUED, state_ts := now \<rparr>) q1)))
          else
            (Return (), q\<lparr> m_msg_pool := m_msg_pool q @ [e],
                           m_msg_map := map_erase a_id (m_msg_map q) \<rparr>))"

section \<open>Public methods\<close>

definition push ::
  "Queue \<Rightarrow> string \<Rightarrow> u8 \<Rightarrow> u64 \<Rightarrow> timestamp \<Rightarrow> timestamp \<Rightarrow> unit outcome \<times> Queue" where
  "push q a_id a_priority a_delay now now' =
     (if unat a_priority \<ge> length (m_queue_list q) then
        (Throw (runtime_error ''Invalid queue priority''), q)
      else if map_find (m_msg_map q) a_id \<noteq> None then
        (Throw (runtime_error ''Duplicate message ID''), q)
      else if word_of_nat (length (m_msg_map q)) = m_capacity q then
        (Throw (length_error ''Queue capacity exceeded''), q)
      else
        (let (msg, q1) = getMsgEntry q a_id a_priority now;
             q2 = q1\<lparr> m_msg_map := map_put a_id msg (m_msg_map q1) \<rparr>
         in if a_delay \<noteq> 0 then (Return (), insertDelayedMsg q2 msg (now' + milliseconds a_delay))
            else (Return (), enqueue_front msg a_priority q2)))"

definition pop :: "Queue \<Rightarrow> timestamp \<Rightarrow> u64 \<Rightarrow> ptr outcome \<times> Queue" where
  "pop q now rnd = popImpl q now rnd"

text \<open>A thread that slept in \<open>popImpl\<close> takes the mutex again and goes round the loop.\<close>

definition pop_resume :: "Queue \<Rightarrow> timestamp \<Rightarrow> u64 \<Rightarrow> ptr outcome \<times> Queue" where
  "pop_resume q now rnd = popImpl (q\<lparr> m_pop_cv := cv_resume (m_pop_cv q) \<rparr>) now rnd"

definition ack ::
  "Queue \<Rightarrow> string \<Rightarrow> string \<Rightarrow> bool \<Rightarrow> u64 \<Rightarrow> timestamp \<Rightarrow> unit outcome \<times> Queue" where
  "ack q a_id a_token a_requeue a_delay now = ackImpl q a_id a_token a_requeue a_delay now"

definition popAck ::
  "Queue \<Rightarrow> string \<Rightarrow> string \<Rightarrow> bool \<Rightarrow> u64 \<Rightarrow> timestamp \<Rightarrow> timestamp \<Rightarrow> u64 \<Rightarrow> ptr outcome \<times> Queue"
where
  "popAck q a_id a_token a_requeue a_delay now now' rnd =
     (case ackImpl q a_id a_token a_requeue a_delay now of
        (Throw e, q1) \<Rightarrow> (Throw e, q1)
      | (Return _, q1) \<Rightarrow> popImpl q1 now' rnd
      | (Wait, q1) \<Rightarrow> (Wait, q1)
      | (Undefined, q1) \<Rightarrow> (Undefined, q1))"

definition getCapacity :: "Queue \<Rightarrow> u64" where
  "getCapacity q = m_capacity q"

text \<open>The results, in the order of the reference parameters: active, failed, free.\<close>

definition getCounts :: "Queue \<Rightarrow> u64 \<times> u64 \<times> u64" where
  "getCounts q =
     (word_of_nat (length (m_msg_map q)) - m_count_failed q,
      m_count_failed q,
      m_capacity q - word_of_nat (length (m_msg_map q)))"

definition getFailed :: "Queue \<Rightarrow> string list" where
  "getFailed q = map fst (filter (\<lambda>m. state (entry q (snd m)) = MSG_FAILED) (m_msg_map q))"

fun erase_loop :: "string list \<Rightarrow> string list \<Rightarrow> Queue \<Rightarrow> string list \<times> Queue" where
  "erase_loop [] failed q = (failed, q)"
| "erase_loop (i # is) failed q =
     (case map_find (m_msg_map q) i of
        None \<Rightarrow> erase_loop is failed q
      | Some m \<Rightarrow>
          if state (entry q m) = MSG_FAILED then
            erase_loop is (failed @ [i])
              (q\<lparr> m_msg_pool := m_msg_pool q @ [m], m_msg_map := map_erase i (m_msg_map q) \<rparr>)
          else erase_loop is failed q)"

definition eraseFailed :: "Queue \<Rightarrow> string list \<Rightarrow> string list \<times> Queue" where
  "eraseFailed q a_msg_ids =
     (let (failed, q1) = erase_loop a_msg_ids [] q
      in (failed, q1\<lparr> m_count_failed := m_count_failed q1 - word_of_nat (length failed) \<rparr>))"

section \<open>The monitor thread\<close>

text \<open>The body of the scan for one message; \<open>notify\<close> counts the messages queued again.\<close>

definition monitor_msg ::
  "timestamp \<Rightarrow> timestamp \<Rightarrow> Queue \<times> nat \<Rightarrow> ptr \<Rightarrow> Queue \<times> nat" where
  "monitor_msg fail_time boost_time = (\<lambda>(q, notify) m.
     let en = entry q m in
     if state en = MSG_RUNNING \<and> m_fail_timeout q \<noteq> 0 then
       if state_ts en < fail_time then
         let en1 = en\<lparr> fail_count := fail_count en + 1 \<rparr> in
         if ucast (fail_count en1) = m_max_retries q then
           (set_entry m (en1\<lparr> state := MSG_FAILED \<rparr>) (q\<lparr> m_count_failed := m_count_failed q + 1 \<rparr>), notify)
         else
           (set_entry m (en1\<lparr> state := MSG_QUEUED, message := (message en1)\<lparr> msg_token := [] \<rparr> \<rparr>)
              (q\<lparr> m_queue_list := push_front (unat (priority en1)) m (m_queue_list q),
                  m_count_queued := m_count_queued q + 1 \<rparr>), notify + 1)
       else (q, notify)
     else if state en = MSG_QUEUED then
       if priority en > 0 \<and> \<not> boosted en \<and> state_ts en < boost_time then
         if m \<in> set (m_queue_list q ! unat (priority en)) then
           (set_entry m (en\<lparr> boosted := True \<rparr>)
              (q\<lparr> m_queue_list := push_front 0 m (erase_first (unat (priority en)) m (m_queue_list q)) \<rparr>),
            notify)
         else (call_err_cb ''Message entry not found in expected queue\<newline>'' q, notify)
       else (q, notify)
     else (q, notify))"

definition monitor_scan :: "Queue \<Rightarrow> timestamp \<Rightarrow> Queue \<times> nat" where
  "monitor_scan q now =
     foldl (monitor_msg (now - milliseconds (m_fail_timeout q)) (now - milliseconds (m_boost_timeout q)))
       (q, 0) (map snd (m_msg_map q))"

text \<open>
  One round of \<open>monitorThread\<close>, from the return of \<open>wait_for\<close>: the flag says whether the
  thread goes on.
\<close>

definition monitor_poll :: "Queue \<Rightarrow> timestamp \<Rightarrow> bool \<times> Queue" where
  "monitor_poll q now =
     (if \<not> m_run q then (False, q)
      else
        (let (q1, notify) = monitor_scan q now
         in (True,
             if notify = 1 then q1\<lparr> m_pop_cv := notify_one (m_pop_cv q1) \<rparr>
             else if notify > 1 then q1\<lparr> m_pop_cv := notify_all (m_pop_cv q1) \<rparr>
             else q1)))"

section \<open>The delay thread\<close>

text \<open>The top of the loop: how long the thread sleeps before it looks at the delay set.\<close>

datatype delay_wait = No_wait | Wait_for timestamp | Wait_forever

definition delay_sleep :: "Queue \<Rightarrow> timestamp \<Rightarrow> delay_wait" where
  "delay_sleep q now =
     (if m_msg_delay q \<noteq> [] then
        (let m = hd (m_msg_delay q) in
         if state_ts (entry q m) > now then Wait_for (state_ts (entry q m) - now) else No_wait)
      else Wait_forever)"

definition release_one :: "Queue \<Rightarrow> timestamp \<Rightarrow> ptr \<Rightarrow> Queue" where
  "release_one q now m =
     (let q1 = set_entry m ((entry q m)\<lparr> state := MSG_QUEUED, state_ts := now \<rparr>) q
      in q1\<lparr> m_queue_list := push_back (unat (priority (entry q1 m))) m (m_queue_list q1),
             m_count_queued := m_count_queued q1 + 1,
             m_pop_cv := notify_one (m_pop_cv q1),
             m_msg_delay := tl (m_msg_delay q1) \<rparr>)"

text \<open>The inner loop: it ends because every round takes one message out of the delay set.\<close>

function release_due :: "Queue \<Rightarrow> timestamp \<Rightarrow> Queue" where
  "release_due q now =
     (if m_msg_delay q \<noteq> [] then
        (if state_ts (entry q (hd (m_msg_delay q))) \<le> now
         then release_due (release_one q now (hd (m_msg_delay q))) now
         else q)
      else q)"
  by pat_completeness auto
termination
  by (relation "measure (\<lambda>(q, now). length (m_msg_delay q))")
    (auto simp: release_one_def set_entry_def Let_def neq_Nil_conv)

declare release_due.simps [simp del]

text \<open>The rest of a round of \<open>delayThread\<close>, after the sleep.\<close>

definition delay_poll :: "Queue \<Rightarrow> timestamp \<Rightarrow> bool \<times> Queue" where
  "delay_poll q now = (if \<not> m_run q then (False, q) else (True, release_due q now))"

end
