(* ===== verification/Queue_Inv.thy ===== *)
theory Queue_Inv
  imports Queue_Model
begin

text \<open>
  The well-formedness invariant of the queue. It ties the five structures that hold pointers
  to each other: the map owns the live entries, the pool the free ones; the deques hold the
  entries in state \<open>MSG_QUEUED\<close>, the delay set those in state \<open>MSG_DELAYED\<close> by release time;
  the counters count. Three lemmas describe all that operations do to it: \<open>wf_move\<close> (one live
  entry changes state), \<open>wf_insert\<close> (a fresh entry) and \<open>wf_remove\<close> (an entry returns to the
  pool).
\<close>

section \<open>Frame facts\<close>

lemma set_entry_fields [simp, frame_simps]:
  "m_capacity (set_entry p e q) = m_capacity q"
  "m_fail_timeout (set_entry p e q) = m_fail_timeout q"
  "m_max_retries (set_entry p e q) = m_max_retries q"
  "m_boost_timeout (set_entry p e q) = m_boost_timeout q"
  "m_poll_interval (set_entry p e q) = m_poll_interval q"
  "m_err_cb (set_entry p e q) = m_err_cb q"
  "m_count_queued (set_entry p e q) = m_count_queued q"
  "m_count_failed (set_entry p e q) = m_count_failed q"
  "m_run (set_entry p e q) = m_run q"
  "m_mon_cv (set_entry p e q) = m_mon_cv q"
  "m_delay_cv (set_entry p e q) = m_delay_cv q"
  "m_pop_cv (set_entry p e q) = m_pop_cv q"
  "m_msg_pool (set_entry p e q) = m_msg_pool q"
  "m_msg_map (set_entry p e q) = m_msg_map q"
  "m_msg_delay (set_entry p e q) = m_msg_delay q"
  "m_queue_list (set_entry p e q) = m_queue_list q"
  "m_heap (set_entry p e q) = (m_heap q)[p := e]"
  by (simp_all add: set_entry_def)

lemma entry_fields [simp]:
  "entry (q\<lparr>m_err_cb := a\<rparr>) p = entry q p"
  "entry (q\<lparr>m_count_queued := b\<rparr>) p = entry q p"
  "entry (q\<lparr>m_count_failed := c\<rparr>) p = entry q p"
  "entry (q\<lparr>m_run := d\<rparr>) p = entry q p"
  "entry (q\<lparr>m_mon_cv := cv\<rparr>) p = entry q p"
  "entry (q\<lparr>m_delay_cv := cv\<rparr>) p = entry q p"
  "entry (q\<lparr>m_pop_cv := cv\<rparr>) p = entry q p"
  "entry (q\<lparr>m_msg_pool := l\<rparr>) p = entry q p"
  "entry (q\<lparr>m_msg_map := m\<rparr>) p = entry q p"
  "entry (q\<lparr>m_msg_delay := l\<rparr>) p = entry q p"
  "entry (q\<lparr>m_queue_list := qs\<rparr>) p = entry q p"
  by (simp_all add: entry_def)

lemma entry_set_entry:
  "p < length (m_heap q) \<Longrightarrow> entry (set_entry p e q) x = (if x = p then e else entry q x)"
  by (simp add: entry_def nth_list_update)

section \<open>The invariant\<close>

definition live :: "Queue \<Rightarrow> ptr set" where
  "live q = snd ` set (m_msg_map q)"

definition with_state :: "Queue \<Rightarrow> MsgState_t \<Rightarrow> ptr set" where
  "with_state q st = {p \<in> live q. state (entry q p) = st}"

definition wf_store :: "Queue \<Rightarrow> bool" where
  "wf_store q \<longleftrightarrow>
     map_ok (m_msg_map q) \<and>
     distinct (map snd (m_msg_map q) @ m_msg_pool q) \<and>
     live q \<union> set (m_msg_pool q) = {..<length (m_heap q)} \<and>
     (\<forall>(k, p) \<in> set (m_msg_map q). msg_id (message (entry q p)) = k) \<and>
     (\<forall>p \<in> live q. unat (priority (entry q p)) < length (m_queue_list q)) \<and>
     (\<forall>p \<in> live q. msg_token (message (entry q p)) = [] \<longleftrightarrow>
        state (entry q p) \<in> {MSG_QUEUED, MSG_DELAYED}) \<and>
     length (m_msg_map q) \<le> unat (m_capacity q)"

definition placed :: "Queue \<Rightarrow> bool" where
  "placed q \<longleftrightarrow>
     (\<forall>i < length (m_queue_list q). \<forall>p \<in> set (m_queue_list q ! i).
        i = unat (priority (entry q p)) \<or> i = 0 \<and> boosted (entry q p))"

definition wf_sched :: "Queue \<Rightarrow> bool" where
  "wf_sched q \<longleftrightarrow>
     mset (concat (m_queue_list q)) = mset_set (with_state q MSG_QUEUED) \<and>
     mset (m_msg_delay q) = mset_set (with_state q MSG_DELAYED) \<and>
     sorted (map (\<lambda>p. state_ts (entry q p)) (m_msg_delay q)) \<and>
     placed q"

definition wf_counts :: "Queue \<Rightarrow> bool" where
  "wf_counts q \<longleftrightarrow>
     m_count_queued q = word_of_nat (card (with_state q MSG_QUEUED)) \<and>
     m_count_failed q = word_of_nat (card (with_state q MSG_FAILED))"

definition queue_ok :: "Queue \<Rightarrow> bool" where
  "queue_ok q \<longleftrightarrow> wf_store q \<and> wf_sched q \<and> wf_counts q"

subsection \<open>What it says\<close>

lemma finite_live [simp]: "finite (live q)"
  by (simp add: live_def)

lemma finite_with_state [simp]: "finite (with_state q st)"
  by (simp add: with_state_def)

lemma wf_live_heap: "queue_ok q \<Longrightarrow> p \<in> live q \<Longrightarrow> p < length (m_heap q)"
  unfolding queue_ok_def wf_store_def by blast

lemma wf_map_ok: "queue_ok q \<Longrightarrow> map_ok (m_msg_map q)"
  by (simp add: queue_ok_def wf_store_def)

lemma wf_find: "queue_ok q \<Longrightarrow> map_find (m_msg_map q) k = Some p \<longleftrightarrow> (k, p) \<in> set (m_msg_map q)"
  by (simp add: smap.entry_iff[OF wf_map_ok])

lemma wf_ids: "queue_ok q \<Longrightarrow> (k, p) \<in> set (m_msg_map q) \<Longrightarrow> msg_id (message (entry q p)) = k"
  unfolding queue_ok_def wf_store_def by blast

lemma live_entry: "p \<in> live q \<longleftrightarrow> (\<exists>k. (k, p) \<in> set (m_msg_map q))"
  by (force simp: live_def)

lemma find_live: "queue_ok q \<Longrightarrow> map_find (m_msg_map q) k = Some p \<Longrightarrow> p \<in> live q"
  using wf_find live_entry by blast

lemma find_id: "queue_ok q \<Longrightarrow> map_find (m_msg_map q) k = Some p \<Longrightarrow> msg_id (message (entry q p)) = k"
  using wf_find wf_ids by blast

lemma live_find: "queue_ok q \<Longrightarrow> p \<in> live q \<Longrightarrow> map_find (m_msg_map q) (msg_id (message (entry q p))) = Some p"
  using wf_find wf_ids live_entry by metis

lemma card_live: "queue_ok q \<Longrightarrow> card (live q) = length (m_msg_map q)"
  unfolding live_def queue_ok_def wf_store_def
  by (metis distinct_append distinct_card length_map list.set_map)

lemma card_with_state_le: "queue_ok q \<Longrightarrow> card (with_state q st) \<le> length (m_msg_map q)"
  using card_mono[of "live q" "with_state q st"] by (simp add: card_live with_state_def subset_iff)

lemma wf_size: "queue_ok q \<Longrightarrow> length (m_msg_map q) \<le> unat (m_capacity q)"
  by (simp add: queue_ok_def wf_store_def)

lemma unat_of_nat_le: "n \<le> unat (c :: u64) \<Longrightarrow> unat (word_of_nat n :: u64) = n"
  by (metis le_unat_uoi)

lemma unat_count_queued: "queue_ok q \<Longrightarrow> unat (m_count_queued q) = card (with_state q MSG_QUEUED)"
  using card_with_state_le[of q MSG_QUEUED] wf_size[of q] unat_of_nat_le[of _ "m_capacity q"]
  by (simp add: queue_ok_def wf_counts_def)

lemma unat_count_failed: "queue_ok q \<Longrightarrow> unat (m_count_failed q) = card (with_state q MSG_FAILED)"
  using card_with_state_le[of q MSG_FAILED] wf_size[of q] unat_of_nat_le[of _ "m_capacity q"]
  by (simp add: queue_ok_def wf_counts_def)

lemma wf_queues: "queue_ok q \<Longrightarrow> set (concat (m_queue_list q)) = with_state q MSG_QUEUED"
  unfolding queue_ok_def wf_sched_def by (metis finite_set_mset_mset_set finite_with_state set_mset_mset)

lemma wf_queues_distinct: "queue_ok q \<Longrightarrow> distinct (concat (m_queue_list q))"
  unfolding queue_ok_def wf_sched_def
  by (metis distinct_count_atmost_1 count_mset_set'  finite_with_state set_mset_mset
      finite_set_mset_mset_set)

lemma wf_delay: "queue_ok q \<Longrightarrow> set (m_msg_delay q) = with_state q MSG_DELAYED"
  unfolding queue_ok_def wf_sched_def by (metis finite_set_mset_mset_set finite_with_state set_mset_mset)

lemma in_queue_state:
  "queue_ok q \<Longrightarrow> i < length (m_queue_list q) \<Longrightarrow> p \<in> set (m_queue_list q ! i) \<Longrightarrow>
     p \<in> live q \<and> state (entry q p) = MSG_QUEUED"
  using wf_queues[of q] nth_mem[of i "m_queue_list q"] by (auto simp: with_state_def)

section \<open>The three kinds of change\<close>

lemma live_entries_lt: "queue_ok q \<Longrightarrow> (k, p) \<in> set (m_msg_map q) \<Longrightarrow> p < length (m_heap q)"
  using live_entry wf_live_heap by blast

lemma inj_ptr: "queue_ok q \<Longrightarrow> (k, p) \<in> set (m_msg_map q) \<Longrightarrow> (k', p) \<in> set (m_msg_map q) \<Longrightarrow> k = k'"
  using wf_ids by blast

definition one_if :: "bool \<Rightarrow> 'a \<Rightarrow> 'a multiset" where
  "one_if b x = (if b then {#x#} else {#})"

lemma one_if_simps [simp]: "one_if True x = {#x#}" "one_if False x = {#}"
  by (simp_all add: one_if_def)

text \<open>The set of entries in a state, when one live entry is overwritten.\<close>

lemma with_state_move:
  assumes "p \<in> live q" and "p < length (m_heap q)"
    and "m_heap q' = (m_heap q)[p := e]" and "m_msg_map q' = m_msg_map q"
  shows "with_state q' st = (if state e = st then insert p (with_state q st) else with_state q st - {p})"
  using assms by (auto simp: with_state_def live_def entry_def nth_list_update)

lemma mset_with_state_move:
  assumes "p \<in> live q" and "p < length (m_heap q)"
    and "m_heap q' = (m_heap q)[p := e]" and "m_msg_map q' = m_msg_map q"
  shows "mset_set (with_state q' st) + one_if (state (entry q p) = st) p
       = mset_set (with_state q st) + one_if (state e = st) p"
proof -
  have old: "p \<in> with_state q st \<longleftrightarrow> state (entry q p) = st"
    using assms(1) by (simp add: with_state_def)
  show ?thesis
    using old by (auto simp: with_state_move[OF assms] one_if_def insert_absorb mset_set.remove)
qed

lemma card_with_state_move:
  assumes "p \<in> live q" and "p < length (m_heap q)"
    and "m_heap q' = (m_heap q)[p := e]" and "m_msg_map q' = m_msg_map q"
  shows "card (with_state q' st) + of_bool (state (entry q p) = st)
       = card (with_state q st) + of_bool (state e = st)"
  using arg_cong[OF mset_with_state_move[OF assms], of size st] by (simp add: one_if_def split: if_splits)

lemma of_nat_cancel:
  assumes "n + k = m + l" and "a + of_nat k = of_nat m + (of_nat l :: u64)"
  shows "a = of_nat n"
proof -
  have "(of_nat n :: u64) + of_nat k = of_nat m + of_nat l"
    using arg_cong[OF assms(1), of "of_nat :: nat \<Rightarrow> u64"] by simp
  with assms(2) show ?thesis by (metis add_right_cancel)
qed

text \<open>
  One live entry \<open>p\<close> becomes \<open>e\<close>: the deques and the delay set gain or lose \<open>p\<close> as the state
  says, the counters follow, and the rest stays.
\<close>

lemma wf_move:
  assumes ok: "queue_ok q" and p: "p \<in> live q"
    and heap: "m_heap q' = (m_heap q)[p := e]"
    and map: "m_msg_map q' = m_msg_map q" "m_msg_pool q' = m_msg_pool q" "m_capacity q' = m_capacity q"
    and e: "msg_id (message e) = msg_id (message (entry q p))" "priority e = priority (entry q p)"
      "msg_token (message e) = [] \<longleftrightarrow> state e \<in> {MSG_QUEUED, MSG_DELAYED}"
    and queues: "length (m_queue_list q') = length (m_queue_list q)"
      "mset (concat (m_queue_list q')) + one_if (state (entry q p) = MSG_QUEUED) p
        = mset (concat (m_queue_list q)) + one_if (state e = MSG_QUEUED) p"
    and delay: "mset (m_msg_delay q') + one_if (state (entry q p) = MSG_DELAYED) p
        = mset (m_msg_delay q) + one_if (state e = MSG_DELAYED) p"
      "sorted (map (\<lambda>x. state_ts (entry q' x)) (m_msg_delay q'))"
    and place: "placed q'"
    and counts: "m_count_queued q' + of_bool (state (entry q p) = MSG_QUEUED)
        = m_count_queued q + of_bool (state e = MSG_QUEUED)"
      "m_count_failed q' + of_bool (state (entry q p) = MSG_FAILED)
        = m_count_failed q + of_bool (state e = MSG_FAILED)"
  shows "queue_ok q'"
proof -
  have lt: "p < length (m_heap q)" using wf_live_heap[OF ok p] .
  have live: "live q' = live q" by (simp add: live_def map)
  have ent: "entry q' x = (if x = p then e else entry q x)" for x
    using lt by (simp add: entry_def heap nth_list_update)
  note ms = mset_with_state_move[OF p lt heap map(1)]
  note cs = card_with_state_move[OF p lt heap map(1)]
  have store: "wf_store q'"
    using ok p e by (auto simp: queue_ok_def wf_store_def live ent map heap queues(1))
  have sched: "wf_sched q'"
    using ok queues delay place ms[of MSG_QUEUED] ms[of MSG_DELAYED]
    by (simp add: queue_ok_def wf_sched_def) (metis add_right_cancel)
  have "wf_counts q'"
    unfolding wf_counts_def
    using ok counts of_nat_cancel[OF cs[of MSG_QUEUED], of "m_count_queued q'"]
      of_nat_cancel[OF cs[of MSG_FAILED], of "m_count_failed q'"]
    by (simp add: queue_ok_def wf_counts_def)
  with store sched show ?thesis by (simp add: queue_ok_def)
qed

text \<open>A fresh entry \<open>e\<close> at an address \<open>p\<close> that was free.\<close>

lemma wf_insert:
  assumes ok: "queue_ok q" and fresh: "map_find (m_msg_map q) k = None" "p \<notin> live q"
    and room: "length (m_msg_map q) < unat (m_capacity q)"
    and map: "m_msg_map q' = map_put k p (m_msg_map q)" "m_capacity q' = m_capacity q"
    and pool: "distinct (m_msg_pool q')" "set (m_msg_pool q') = set (m_msg_pool q) - {p}"
      "{..<length (m_heap q')} = insert p {..<length (m_heap q)}"
    and ent: "\<And>x. x \<in> live q \<Longrightarrow> entry q' x = entry q x" "entry q' p = e"
    and e: "msg_id (message e) = k" "msg_token (message e) = []" "unat (priority e) < length (m_queue_list q)"
      "state e \<in> {MSG_QUEUED, MSG_DELAYED}"
    and queues: "length (m_queue_list q') = length (m_queue_list q)"
      "mset (concat (m_queue_list q')) = mset (concat (m_queue_list q)) + one_if (state e = MSG_QUEUED) p"
    and delay: "mset (m_msg_delay q') = mset (m_msg_delay q) + one_if (state e = MSG_DELAYED) p"
      "sorted (map (\<lambda>x. state_ts (entry q' x)) (m_msg_delay q'))"
    and place: "placed q'"
    and counts: "m_count_queued q' = m_count_queued q + of_bool (state e = MSG_QUEUED)"
      "m_count_failed q' = m_count_failed q"
  shows "queue_ok q'"
proof -
  note mok = wf_map_ok[OF ok]
  have entries: "set (m_msg_map q') = insert (k, p) (set (m_msg_map q))"
    using smap.set_entries_put[OF mok fresh(1)] by (simp add: map)
  then have live: "live q' = insert p (live q)" by (simp add: live_def)
  have ws: "with_state q' st = (if state e = st then insert p (with_state q st) else with_state q st)" for st
    using fresh(2) ent by (auto simp: with_state_def live)
  have pnot: "p \<notin> with_state q st" for st using fresh(2) by (simp add: with_state_def)
  have dist: "distinct (map snd (m_msg_map q'))"
  proof -
    have "card (set (map snd (m_msg_map q'))) = card (insert p (live q))"
      using live by (simp add: live_def)
    also have "\<dots> = length (m_msg_map q')"
      using fresh smap.size_put[OF mok fresh(1)] card_live[OF ok] by (simp add: map)
    finally show ?thesis by (metis card_distinct length_map)
  qed
  have cover: "live q \<union> set (m_msg_pool q) = {..<length (m_heap q)}" "live q \<inter> set (m_msg_pool q) = {}"
    using ok by (auto simp: queue_ok_def wf_store_def live_def)
  have disj: "live q' \<inter> set (m_msg_pool q') = {}" using cover(2) pool(2) live by auto
  have "wf_store q'"
    unfolding wf_store_def
  proof (intro conjI)
    show "map_ok (m_msg_map q')" using smap.ok_put[OF mok] by (simp add: map)
    show "distinct (map snd (m_msg_map q') @ m_msg_pool q')"
      using dist pool(1) disj by (simp add: live_def)
    show "live q' \<union> set (m_msg_pool q') = {..<length (m_heap q')}"
      using cover(1) pool(2,3) live by auto
    show "\<forall>(k', x) \<in> set (m_msg_map q'). msg_id (message (entry q' x)) = k'"
    proof clarify
      fix k' x assume "(k', x) \<in> set (m_msg_map q')"
      then consider "k' = k" "x = p" | "(k', x) \<in> set (m_msg_map q)" by (auto simp: entries)
      then show "msg_id (message (entry q' x)) = k'"
      proof cases
        case 1
        then show ?thesis using ent(2) e(1) by simp
      next
        case 2
        then have "x \<in> live q" using live_entry by blast
        then show ?thesis using ent(1) wf_ids[OF ok 2] by simp
      qed
    qed
    show "\<forall>x \<in> live q'. unat (priority (entry q' x)) < length (m_queue_list q')"
      using ok ent e(3) queues(1) by (auto simp: live queue_ok_def wf_store_def)
    show "\<forall>x \<in> live q'. msg_token (message (entry q' x)) = [] \<longleftrightarrow>
            state (entry q' x) \<in> {MSG_QUEUED, MSG_DELAYED}"
      using ok ent e(2,4) by (auto simp: live queue_ok_def wf_store_def)
    show "length (m_msg_map q') \<le> unat (m_capacity q')"
      using room smap.size_put[OF mok fresh(1)] by (simp add: map)
  qed
  moreover have "wf_sched q'"
    using ok queues(2) delay place pnot e(4)
    by (auto simp: wf_sched_def queue_ok_def ws one_if_def)
  moreover have "wf_counts q'"
    using ok counts pnot e(4) by (auto simp: wf_counts_def queue_ok_def ws)
  ultimately show ?thesis by (simp add: queue_ok_def)
qed

text \<open>A live entry that no deque and no delay set holds goes back to the pool.\<close>

lemma wf_remove:
  assumes ok: "queue_ok q" and hit: "map_find (m_msg_map q) k = Some p"
    and st: "state (entry q p) \<notin> {MSG_QUEUED, MSG_DELAYED}"
    and map: "m_msg_map q' = map_erase k (m_msg_map q)" "m_msg_pool q' = m_msg_pool q @ [p]"
      "m_capacity q' = m_capacity q" "m_heap q' = m_heap q"
      "m_queue_list q' = m_queue_list q" "m_msg_delay q' = m_msg_delay q"
    and counts: "m_count_queued q' = m_count_queued q"
      "m_count_failed q' + of_bool (state (entry q p) = MSG_FAILED) = m_count_failed q"
  shows "queue_ok q'"
proof -
  note mok = wf_map_ok[OF ok]
  have kp: "(k, p) \<in> set (m_msg_map q)" using hit wf_find[OF ok] by simp
  have ent: "entry q' x = entry q x" for x by (simp add: entry_def map)
  have entries: "set (m_msg_map q') = {e \<in> set (m_msg_map q). fst e \<noteq> k}"
    using smap.set_entries_erase[OF mok] by (simp add: map)
  have only_k: "(k', p) \<in> set (m_msg_map q) \<Longrightarrow> k' = k" for k'
    using inj_ptr[OF ok] kp by blast
  have only_p: "(k, x) \<in> set (m_msg_map q) \<Longrightarrow> x = p" for x
    using wf_find[OF ok, of k x] hit by simp
  have "x \<in> live q' \<longleftrightarrow> x \<in> live q - {p}" for x
    using only_k only_p by (auto simp: live_entry entries)
  then have live: "live q' = live q - {p}" "p \<in> live q"
    using find_live[OF ok hit] by auto
  have ws: "with_state q' st = with_state q st - {p}" for st
    by (auto simp: with_state_def live ent)
  have nodest: "p \<notin> with_state q MSG_QUEUED" "p \<notin> with_state q MSG_DELAYED"
    using st by (auto simp: with_state_def)
  have dist: "distinct (map snd (m_msg_map q) @ m_msg_pool q)"
    using ok by (simp add: queue_ok_def wf_store_def)
  have sub: "distinct (map snd (m_msg_map q'))"
    using dist by (simp add: map map_erase_def distinct_map_filter)
  have "wf_store q'"
    unfolding wf_store_def
  proof (intro conjI)
    show "map_ok (m_msg_map q')" using smap.ok_erase[OF mok] by (simp add: map)
    show "distinct (map snd (m_msg_map q') @ m_msg_pool q')"
      using sub dist live by (auto simp: map(2) live_def)
    show "live q' \<union> set (m_msg_pool q') = {..<length (m_heap q')}"
      using ok live by (auto simp: map queue_ok_def wf_store_def)
    show "\<forall>(k', x) \<in> set (m_msg_map q'). msg_id (message (entry q' x)) = k'"
      using wf_ids[OF ok] by (auto simp: entries ent)
    show "\<forall>x \<in> live q'. unat (priority (entry q' x)) < length (m_queue_list q')"
      using ok by (auto simp: live ent map queue_ok_def wf_store_def)
    show "\<forall>x \<in> live q'. msg_token (message (entry q' x)) = [] \<longleftrightarrow>
            state (entry q' x) \<in> {MSG_QUEUED, MSG_DELAYED}"
      using ok by (auto simp: live ent queue_ok_def wf_store_def)
    show "length (m_msg_map q') \<le> unat (m_capacity q')"
      using wf_size[OF ok] smap.size_erase[OF mok hit] by (simp add: map)
  qed
  moreover have "wf_sched q'"
    using ok nodest by (simp add: wf_sched_def queue_ok_def ws map placed_def ent)
  moreover have "wf_counts q'"
  proof -
    have "card (with_state q' MSG_FAILED) + of_bool (state (entry q p) = MSG_FAILED)
        = card (with_state q MSG_FAILED)"
      using live(2) ws[of MSG_FAILED] card_Suc_Diff1[of "with_state q MSG_FAILED" p]
      by (cases "p \<in> with_state q MSG_FAILED") (auto simp: with_state_def[of q])
    from of_nat_cancel[of _ _ _ 0, simplified, OF this, of "m_count_failed q'"] show ?thesis
      using ok counts nodest by (simp add: wf_counts_def queue_ok_def ws)
  qed
  ultimately show ?thesis by (simp add: queue_ok_def)
qed

end
