(* ===== verification/Queue_Preserve.thy ===== *)
theory Queue_Preserve
  imports Queue_Inv
begin

text \<open>
  Every operation of the queue keeps the well-formedness invariant: one lemma per operation
  of the class, collected in \<open>inv_intros\<close>.
\<close>

section \<open>Construction\<close>

lemma queue_ok_create [inv_intros]: "queue_ok (Queue_create np cap ft mr bt mp cb)"
proof -
  have "concat (replicate n []) = ([] :: ptr list)" for n by (induction n) auto
  then show ?thesis
    by (auto simp: queue_ok_def wf_store_def wf_sched_def wf_counts_def with_state_def live_def
        Queue_create_def placed_def)
qed

text \<open>The invariant does not read the callback, the run flag or the condition variables.\<close>

lemma queue_ok_fields [simp]:
  "queue_ok (q\<lparr>m_err_cb := a\<rparr>) = queue_ok q"
  "queue_ok (q\<lparr>m_run := r\<rparr>) = queue_ok q"
  "queue_ok (q\<lparr>m_mon_cv := cv\<rparr>) = queue_ok q"
  "queue_ok (q\<lparr>m_delay_cv := cv\<rparr>) = queue_ok q"
  "queue_ok (q\<lparr>m_pop_cv := cv\<rparr>) = queue_ok q"
  by (simp_all add: queue_ok_def wf_store_def wf_sched_def wf_counts_def with_state_def live_def
      placed_def)

section \<open>Placement of entries in the deques\<close>

lemma placedD:
  "placed q \<Longrightarrow> i < length (m_queue_list q) \<Longrightarrow> p \<in> set (m_queue_list q ! i) \<Longrightarrow>
     i = unat (priority (entry q p)) \<or> i = 0 \<and> boosted (entry q p)"
  by (simp add: placed_def)

lemma placedI:
  "(\<And>i p. i < length (m_queue_list q) \<Longrightarrow> p \<in> set (m_queue_list q ! i) \<Longrightarrow>
     i = unat (priority (entry q p)) \<or> i = 0 \<and> boosted (entry q p)) \<Longrightarrow> placed q"
  by (simp add: placed_def)

lemma placed_move:
  assumes "placed q" and "length (m_queue_list q') = length (m_queue_list q)"
    and "\<And>x. x \<noteq> p \<Longrightarrow> priority (entry q' x) = priority (entry q x) \<and> boosted (entry q' x) = boosted (entry q x)"
    and "\<And>i x. i < length (m_queue_list q) \<Longrightarrow> x \<noteq> p \<Longrightarrow> x \<in> set (m_queue_list q' ! i) \<Longrightarrow> x \<in> set (m_queue_list q ! i)"
    and "\<And>i. i < length (m_queue_list q) \<Longrightarrow> p \<in> set (m_queue_list q' ! i) \<Longrightarrow>
           i = unat (priority (entry q' p)) \<or> i = 0 \<and> boosted (entry q' p)"
  shows "placed q'"
  unfolding placed_def
proof (intro allI impI ballI)
  fix i x assume i: "i < length (m_queue_list q')" and x: "x \<in> set (m_queue_list q' ! i)"
  show "i = unat (priority (entry q' x)) \<or> i = 0 \<and> boosted (entry q' x)"
  proof (cases "x = p")
    case True
    with assms(2,5) i x show ?thesis by simp
  next
    case False
    with assms(2,4) i x have "x \<in> set (m_queue_list q ! i)" by simp
    with assms(1,2,3) i False show ?thesis by (auto simp: placed_def)
  qed
qed

lemma wf_placed: "queue_ok q \<Longrightarrow> placed q"
  by (simp add: queue_ok_def wf_sched_def)

lemma wf_sorted_delay: "queue_ok q \<Longrightarrow> sorted (map (\<lambda>p. state_ts (entry q p)) (m_msg_delay q))"
  by (simp add: queue_ok_def wf_sched_def)

lemma not_in_queue:
  "queue_ok q \<Longrightarrow> state (entry q p) \<noteq> MSG_QUEUED \<Longrightarrow> i < length (m_queue_list q) \<Longrightarrow>
     p \<notin> set (m_queue_list q ! i)"
  using in_queue_state by blast

lemma wf_delay_distinct: "queue_ok q \<Longrightarrow> distinct (m_msg_delay q)"
  unfolding queue_ok_def wf_sched_def
  by (metis distinct_count_atmost_1 count_mset_set' finite_with_state set_mset_mset
      finite_set_mset_mset_set)

lemma not_in_delay:
  "queue_ok q \<Longrightarrow> state (entry q p) \<noteq> MSG_DELAYED \<Longrightarrow> p \<notin> set (m_msg_delay q)"
  by (simp add: wf_delay with_state_def)

lemma wf_priority: "queue_ok q \<Longrightarrow> p \<in> live q \<Longrightarrow> unat (priority (entry q p)) < length (m_queue_list q)"
  by (simp add: queue_ok_def wf_store_def)

lemma wf_token:
  "queue_ok q \<Longrightarrow> p \<in> live q \<Longrightarrow>
     msg_token (message (entry q p)) = [] \<longleftrightarrow> state (entry q p) \<in> {MSG_QUEUED, MSG_DELAYED}"
  by (simp add: queue_ok_def wf_store_def)

lemma set_push_nth [simp]:
  "i < length qs \<Longrightarrow> x \<in> set (push_front j p qs ! i) \<longleftrightarrow> x \<in> set (qs ! i) \<or> x = p \<and> i = j"
  "i < length qs \<Longrightarrow> x \<in> set (push_back j p qs ! i) \<longleftrightarrow> x \<in> set (qs ! i) \<or> x = p \<and> i = j"
  by (auto simp: nth_push)

text \<open>Sortedness of the delay set when an entry outside it is overwritten.\<close>

lemma sorted_delay_frame:
  assumes "queue_ok q" and "p \<notin> set (m_msg_delay q)"
    and "\<And>x. x \<noteq> p \<Longrightarrow> entry q' x = entry q x"
  shows "sorted (map (\<lambda>x. state_ts (entry q' x)) (m_msg_delay q))"
proof -
  have "map (\<lambda>x. state_ts (entry q' x)) (m_msg_delay q) = map (\<lambda>x. state_ts (entry q x)) (m_msg_delay q)"
    using assms(2,3) by (metis (no_types, lifting) map_cong)
  then show ?thesis using wf_sorted_delay[OF assms(1)] by metis
qed

section \<open>Taking a message: \<open>popImpl\<close>\<close>

lemma pop_first_member:
  "pop_first qs = Some (p, qs') \<Longrightarrow> i < length qs \<Longrightarrow> x \<in> set (qs' ! i) \<Longrightarrow> x \<in> set (qs ! i)"
  using pop_first_spec[of qs p qs'] by (auto simp: nth_list_update in_set_butlastD split: if_splits)

lemma pop_first_live:
  assumes ok: "queue_ok q" and pop: "pop_first (m_queue_list q) = Some (p, qs)"
  shows "p \<in> live q" "state (entry q p) = MSG_QUEUED" "p \<notin> set (concat qs)"
proof -
  have "p \<in> set (concat (m_queue_list q))"
    using pop_first_mset[OF pop] by (metis set_mset_mset union_single_eq_member)
  then show "p \<in> live q" "state (entry q p) = MSG_QUEUED"
    using wf_queues[OF ok] by (auto simp: with_state_def)
  have "distinct (p # concat qs)"
    using wf_queues_distinct[OF ok] pop_first_mset[OF pop]
    by (metis mset.simps(2) mset_eq_imp_distinct_iff)
  then show "p \<notin> set (concat qs)" by simp
qed

lemma pop_available:
  assumes "queue_ok q" and "m_count_queued q \<noteq> 0"
  shows "\<exists>p qs. pop_first (m_queue_list q) = Some (p, qs)"
proof -
  have "with_state q MSG_QUEUED \<noteq> {}"
    using assms(2) unat_count_queued[OF assms(1)] by (metis card.empty unat_eq_zero)
  then have "concat (m_queue_list q) \<noteq> []" using wf_queues[OF assms(1)] by (metis list.set(1))
  then show ?thesis using pop_first_None[of "m_queue_list q"] by (cases "pop_first (m_queue_list q)") auto
qed

lemma popImpl_nonempty:
  assumes "pop_first (m_queue_list q) = Some (p, qs)" and "m_count_queued q \<noteq> 0"
  shows "popImpl q now rnd = (Return p,
    (set_entry p ((entry q p)\<lparr> state := MSG_RUNNING, state_ts := now,
        message := (message (entry q p))\<lparr> msg_token := to_string (unat rnd) \<rparr> \<rparr>) q)
      \<lparr> m_queue_list := qs, m_count_queued := m_count_queued q - 1 \<rparr>)"
  using assms by (simp add: popImpl_def Let_def set_entry_def)

lemma queue_ok_popImpl [inv_intros]:
  assumes ok: "queue_ok q"
  shows "queue_ok (snd (popImpl q now rnd))"
proof (cases "m_count_queued q = 0")
  case True
  with ok show ?thesis by (simp add: popImpl_def)
next
  case False
  from pop_available[OF ok this] obtain p qs where pop: "pop_first (m_queue_list q) = Some (p, qs)" by blast
  note p = pop_first_live[OF ok pop]
  have lt: "p < length (m_heap q)" using wf_live_heap[OF ok p(1)] .
  have ms: "mset (concat (m_queue_list q)) = add_mset p (mset (concat qs))" using pop_first_mset[OF pop] .
  have len: "length qs = length (m_queue_list q)" using pop_first_length[OF pop] .
  let ?e = "(entry q p)\<lparr> state := MSG_RUNNING, state_ts := now,
        message := (message (entry q p))\<lparr> msg_token := to_string (unat rnd) \<rparr> \<rparr>"
  let ?q = "(set_entry p ?e q)\<lparr> m_queue_list := qs, m_count_queued := m_count_queued q - 1 \<rparr>"
  have ent: "entry ?q x = (if x = p then ?e else entry q x)" for x
    using entry_set_entry[OF lt] by simp
  have "queue_ok ?q"
  proof (rule wf_move[OF ok p(1), where e = ?e])
    show "placed ?q"
    proof (rule placed_move[OF wf_placed[OF ok], where p = p])
      show "i = unat (priority (entry ?q p)) \<or> i = 0 \<and> boosted (entry ?q p)"
        if "i < length (m_queue_list q)" "p \<in> set (m_queue_list ?q ! i)" for i
        using that p(3) len nth_mem[of i qs] by auto
    qed (use pop_first_member[OF pop] ent len in auto)
    show "sorted (map (\<lambda>x. state_ts (entry ?q x)) (m_msg_delay ?q))"
      using sorted_delay_frame[OF ok, of p ?q] not_in_delay[OF ok, of p] p(2) ent by simp
  qed (use p(2) ms len in auto)
  then show ?thesis using popImpl_nonempty[OF pop False] by simp
qed

section \<open>Queueing again: \<open>insertDelayedMsg\<close> and \<open>enqueue_front\<close>\<close>

text \<open>
  Both are called on an entry that is in neither structure: a live entry that ran
  (\<open>ackImpl\<close>), or a fresh one (\<open>push\<close>).
\<close>

lemma insertDelayedMsg_fields [simp]:
  "m_capacity (insertDelayedMsg q p ts) = m_capacity q"
  "m_msg_map (insertDelayedMsg q p ts) = m_msg_map q"
  "m_msg_pool (insertDelayedMsg q p ts) = m_msg_pool q"
  "m_queue_list (insertDelayedMsg q p ts) = m_queue_list q"
  "m_count_queued (insertDelayedMsg q p ts) = m_count_queued q"
  "m_count_failed (insertDelayedMsg q p ts) = m_count_failed q"
  "m_pop_cv (insertDelayedMsg q p ts) = m_pop_cv q"
  "m_heap (insertDelayedMsg q p ts) = (m_heap q)[p := (entry q p)\<lparr> state := MSG_DELAYED, state_ts := ts \<rparr>]"
  "m_msg_delay (insertDelayedMsg q p ts) = mset_insert
     (\<lambda>x. state_ts (entry (set_entry p ((entry q p)\<lparr> state := MSG_DELAYED, state_ts := ts \<rparr>) q) x)) p (m_msg_delay q)"
  by (simp_all add: insertDelayedMsg_def Let_def)

lemma entry_insertDelayedMsg:
  "p < length (m_heap q) \<Longrightarrow> entry (insertDelayedMsg q p ts) x =
     (if x = p then (entry q p)\<lparr> state := MSG_DELAYED, state_ts := ts \<rparr> else entry q x)"
  by (simp add: entry_def nth_list_update)

lemma sorted_insertDelayedMsg:
  assumes "p < length (m_heap q)" and "p \<notin> set (m_msg_delay q)"
    and "sorted (map (\<lambda>x. state_ts (entry q x)) (m_msg_delay q))"
  shows "sorted (map (\<lambda>x. state_ts (entry (insertDelayedMsg q p ts) x)) (m_msg_delay (insertDelayedMsg q p ts)))"
proof -
  let ?f = "\<lambda>x. state_ts (entry (insertDelayedMsg q p ts) x)"
  have f: "?f = (\<lambda>x. state_ts (entry (set_entry p ((entry q p)\<lparr> state := MSG_DELAYED, state_ts := ts \<rparr>) q) x))"
    using assms(1) by (auto simp: entry_insertDelayedMsg entry_set_entry)
  have "map ?f (m_msg_delay q) = map (\<lambda>x. state_ts (entry q x)) (m_msg_delay q)"
    using assms(1,2) by (intro map_cong) (auto simp: entry_insertDelayedMsg)
  with assms(3) have "sorted (map ?f (m_msg_delay q))" by (simp only:)
  then have "sorted (map ?f (mset_insert ?f p (m_msg_delay q)))"
    by (simp only: sorted_mset_insert)
  then show ?thesis by (simp add: f)
qed

lemma enqueue_front_fields [simp]:
  "m_capacity (enqueue_front p i q) = m_capacity q"
  "m_msg_map (enqueue_front p i q) = m_msg_map q"
  "m_msg_pool (enqueue_front p i q) = m_msg_pool q"
  "m_msg_delay (enqueue_front p i q) = m_msg_delay q"
  "m_heap (enqueue_front p i q) = m_heap q"
  "m_queue_list (enqueue_front p i q) = push_front (unat i) p (m_queue_list q)"
  "m_count_queued (enqueue_front p i q) = m_count_queued q + 1"
  "m_count_failed (enqueue_front p i q) = m_count_failed q"
  "m_pop_cv (enqueue_front p i q) = notify_one (m_pop_cv q)"
  "entry (enqueue_front p i q) x = entry q x"
  by (simp_all add: enqueue_front_def entry_def)

lemma placed_enqueue_front:
  "placed q \<Longrightarrow> priority (entry q p) = i \<Longrightarrow> placed (enqueue_front p i q)"
  by (rule placedI) (use placedD[of q] in fastforce)

section \<open>Acknowledging: \<open>ackImpl\<close>\<close>

text \<open>The only three outcomes besides the exceptions, with the state they leave.\<close>

lemma ackImpl_cases:
  obtains (no_id) "map_find (m_msg_map q) i = None"
      "ackImpl q i tok rq d now = (Throw (runtime_error ''No message found matching ID''), q)"
  | (bad_token) p where "map_find (m_msg_map q) i = Some p" "msg_token (message (entry q p)) \<noteq> tok"
      "ackImpl q i tok rq d now = (Throw (runtime_error ''Invalid message token''), q)"
  | (bad_state) p where "map_find (m_msg_map q) i = Some p" "msg_token (message (entry q p)) = tok"
      "state (entry q p) \<noteq> MSG_RUNNING"
      "ackImpl q i tok rq d now = (Throw (runtime_error ''Invalid message state''), q)"
  | (removed) p where "map_find (m_msg_map q) i = Some p" "msg_token (message (entry q p)) = tok"
      "state (entry q p) = MSG_RUNNING" "\<not> rq"
      "ackImpl q i tok rq d now = (Return (), q\<lparr> m_msg_pool := m_msg_pool q @ [p],
         m_msg_map := map_erase i (m_msg_map q) \<rparr>)"
  | (requeue) p where "map_find (m_msg_map q) i = Some p" "msg_token (message (entry q p)) = tok"
      "state (entry q p) = MSG_RUNNING" "rq" "d = 0"
      "ackImpl q i tok rq d now = (Return (), enqueue_front p (priority (entry q p))
         (set_entry p ((entry q p)\<lparr> boosted := False, message := (message (entry q p))\<lparr> msg_token := [] \<rparr>,
            state := MSG_QUEUED, state_ts := now \<rparr>) q))"
  | (requeue_later) p where "map_find (m_msg_map q) i = Some p" "msg_token (message (entry q p)) = tok"
      "state (entry q p) = MSG_RUNNING" "rq" "d \<noteq> 0"
      "ackImpl q i tok rq d now = (Return (), insertDelayedMsg
         (set_entry p ((entry q p)\<lparr> boosted := False, message := (message (entry q p))\<lparr> msg_token := [] \<rparr> \<rparr>) q)
         p (now + milliseconds d))"
proof (cases "map_find (m_msg_map q) i")
  case None
  then show thesis using no_id by (simp add: ackImpl_def)
next
  case (Some p)
  have dbl: "set_entry p a (set_entry p b q) = set_entry p a q" for a b
    by (simp add: set_entry_def)
  consider "msg_token (message (entry q p)) \<noteq> tok"
    | "msg_token (message (entry q p)) = tok" "state (entry q p) \<noteq> MSG_RUNNING"
    | "msg_token (message (entry q p)) = tok" "state (entry q p) = MSG_RUNNING" "\<not> rq"
    | "msg_token (message (entry q p)) = tok" "state (entry q p) = MSG_RUNNING" "rq" "d = 0"
    | "msg_token (message (entry q p)) = tok" "state (entry q p) = MSG_RUNNING" "rq" "d \<noteq> 0"
    by blast
  then show thesis
    using Some bad_token bad_state removed requeue requeue_later
    by cases (simp_all add: ackImpl_def Let_def dbl)
qed

lemma queue_ok_enqueue_again:
  assumes ok: "queue_ok q" and p: "p \<in> live q" "state (entry q p) = MSG_RUNNING"
    and e: "msg_id (message e) = msg_id (message (entry q p))" "priority e = priority (entry q p)"
      "msg_token (message e) = []" "state e = MSG_QUEUED"
  shows "queue_ok (enqueue_front p (priority (entry q p)) (set_entry p e q))" (is "queue_ok ?q")
proof -
  have lt: "p < length (m_heap q)" using wf_live_heap[OF ok p(1)] .
  have ent: "entry ?q x = (if x = p then e else entry q x)" for x
    using entry_set_entry[OF lt] by simp
  have pr: "unat (priority (entry q p)) < length (m_queue_list q)" using wf_priority[OF ok p(1)] .
  show ?thesis
  proof (rule wf_move[OF ok p(1), where e = e])
    show "placed ?q"
      by (rule placed_move[OF wf_placed[OF ok], where p = p])
        (use ent e(2) not_in_queue[OF ok, of p] p(2) in auto)
    show "sorted (map (\<lambda>x. state_ts (entry ?q x)) (m_msg_delay ?q))"
      using sorted_delay_frame[OF ok, of p ?q] not_in_delay[OF ok, of p] p(2) ent by simp
  qed (use p(2) e pr in auto)
qed

lemma queue_ok_delay_again:
  assumes ok: "queue_ok q" and p: "p \<in> live q" "state (entry q p) = MSG_RUNNING"
    and e: "msg_id (message e) = msg_id (message (entry q p))" "priority e = priority (entry q p)"
      "msg_token (message e) = []"
  shows "queue_ok (insertDelayedMsg (set_entry p e q) p ts)" (is "queue_ok ?q")
proof -
  let ?e = "e\<lparr> state := MSG_DELAYED, state_ts := ts \<rparr>"
  have lt: "p < length (m_heap q)" using wf_live_heap[OF ok p(1)] .
  have ent: "entry ?q x = (if x = p then ?e else entry q x)" for x
    using lt by (simp add: entry_insertDelayedMsg entry_set_entry)
  have nd: "p \<notin> set (m_msg_delay q)" using not_in_delay[OF ok] p(2) by simp
  show ?thesis
  proof (rule wf_move[OF ok p(1), where e = ?e])
    show "placed ?q"
      by (rule placed_move[OF wf_placed[OF ok], where p = p])
        (use ent not_in_queue[OF ok, of p] p(2) in auto)
    show "sorted (map (\<lambda>x. state_ts (entry ?q x)) (m_msg_delay ?q))"
      using sorted_delay_frame[OF ok nd, of "set_entry p e q"] lt nd
      by (intro sorted_insertDelayedMsg) (auto simp: entry_set_entry)
  qed (use p(2) e lt in \<open>auto simp: entry_set_entry\<close>)
qed

lemma queue_ok_ackImpl [inv_intros]:
  assumes ok: "queue_ok q"
  shows "queue_ok (snd (ackImpl q i tok rq d now))"
proof (cases rule: ackImpl_cases[of q i tok rq d now])
  case (removed p)
  then show ?thesis using wf_remove[OF ok removed(1), of "snd (ackImpl q i tok rq d now)"] by simp
next
  case (requeue p)
  show ?thesis
    using queue_ok_enqueue_again[OF ok find_live[OF ok requeue(1)] requeue(3)] requeue(6) by simp
next
  case (requeue_later p)
  show ?thesis
    using queue_ok_delay_again[OF ok find_live[OF ok requeue_later(1)] requeue_later(3)] requeue_later(6)
    by simp
qed (use ok in simp_all)

section \<open>A new message: \<open>push\<close>\<close>

text \<open>
  A recycled entry equals a new one, so the two ways of \<open>getMsgEntry\<close> differ only in the
  address.
\<close>

lemma MsgEntry_reset_new: "MsgEntry_reset e i pr now = MsgEntry_new i pr now"
  by (simp add: MsgEntry_reset_def MsgEntry_new_def)

lemma getMsgEntry_spec:
  assumes ok: "queue_ok q"
  obtains p h l where "getMsgEntry q i pr now = (p, q\<lparr> m_heap := h, m_msg_pool := l \<rparr>)"
    "p \<notin> live q" "p < length h" "h ! p = MsgEntry_new i pr now"
    "\<And>x. x \<in> live q \<Longrightarrow> h ! x = m_heap q ! x"
    "distinct l" "set l = set (m_msg_pool q) - {p}" "{..<length h} = insert p {..<length (m_heap q)}"
proof (cases "m_msg_pool q = []")
  case True
  have "x \<in> live q \<Longrightarrow> x < length (m_heap q)" for x using wf_live_heap[OF ok] .
  then show thesis
    using True by (intro that[where p = "length (m_heap q)" and h = "m_heap q @ [MsgEntry_new i pr now]" and l = "[]"])
      (auto simp: getMsgEntry_def nth_append)
next
  case False
  then obtain xs r where bl: "m_msg_pool q = xs @ [r]" by (metis rev_exhaust)
  have "distinct (xs @ [r])" "live q \<inter> set (xs @ [r]) = {}" "live q \<union> set (xs @ [r]) = {..<length (m_heap q)}"
    using ok by (auto simp: queue_ok_def wf_store_def live_def bl)
  then have pool: "distinct xs" "r \<notin> set xs" "r \<notin> live q" "r < length (m_heap q)" by auto
  then show thesis
    using bl
    by (intro that[where p = r and h = "(m_heap q)[r := MsgEntry_new i pr now]" and l = xs])
      (auto simp: getMsgEntry_def Let_def set_entry_def MsgEntry_reset_new nth_list_update)
qed

lemma push_accepted:
  assumes ok: "queue_ok q" and acc: "fst (push q i pr d now now') = Return ()"
  obtains p h l where
    "unat pr < length (m_queue_list q)" "map_find (m_msg_map q) i = None"
    "length (m_msg_map q) < unat (m_capacity q)"
    "getMsgEntry q i pr now = (p, q\<lparr> m_heap := h, m_msg_pool := l \<rparr>)"
    "p \<notin> live q" "p < length h" "h ! p = MsgEntry_new i pr now"
    "\<And>x. x \<in> live q \<Longrightarrow> h ! x = m_heap q ! x"
    "distinct l" "set l = set (m_msg_pool q) - {p}" "{..<length h} = insert p {..<length (m_heap q)}"
    "push q i pr d now now' = (Return (),
       (let q2 = q\<lparr> m_heap := h, m_msg_pool := l, m_msg_map := map_put i p (m_msg_map q) \<rparr>
        in if d \<noteq> 0 then insertDelayedMsg q2 p (now' + milliseconds d) else enqueue_front p pr q2))"
proof -
  obtain p h l where g: "getMsgEntry q i pr now = (p, q\<lparr> m_heap := h, m_msg_pool := l \<rparr>)"
    "p \<notin> live q" "p < length h" "h ! p = MsgEntry_new i pr now"
    "\<And>x. x \<in> live q \<Longrightarrow> h ! x = m_heap q ! x"
    "distinct l" "set l = set (m_msg_pool q) - {p}" "{..<length h} = insert p {..<length (m_heap q)}"
    by (rule getMsgEntry_spec[OF ok, where i = i and pr = pr and now = now]) blast
  have c: "unat pr < length (m_queue_list q)" "map_find (m_msg_map q) i = None"
    "word_of_nat (length (m_msg_map q)) \<noteq> m_capacity q"
    using acc by (auto simp: push_def split: if_splits)
  have "length (m_msg_map q) \<noteq> unat (m_capacity q)" using c(3) by auto
  with wf_size[OF ok] have "length (m_msg_map q) < unat (m_capacity q)" by simp
  moreover have "push q i pr d now now' = (Return (),
       (let q2 = q\<lparr> m_heap := h, m_msg_pool := l, m_msg_map := map_put i p (m_msg_map q) \<rparr>
        in if d \<noteq> 0 then insertDelayedMsg q2 p (now' + milliseconds d) else enqueue_front p pr q2))"
    using c by (simp add: push_def g(1) Let_def)
  ultimately show thesis using that c(1,2) g by blast
qed

text \<open>A push either is accepted or throws one of three exceptions and changes nothing.\<close>

lemma push_rejected:
  "fst (push q i pr d now now') \<noteq> Return () \<Longrightarrow> \<exists>e. push q i pr d now now' = (Throw e, q)"
  by (auto simp: push_def Let_def split: if_splits prod.splits)

lemma queue_ok_push [inv_intros]:
  assumes ok: "queue_ok q"
  shows "queue_ok (snd (push q i pr d now now'))"
proof (cases "fst (push q i pr d now now') = Return ()")
  case False
  then show ?thesis using push_rejected[OF False] ok by auto
next
  case True
  obtain p h l where P: "unat pr < length (m_queue_list q)" "map_find (m_msg_map q) i = None"
    "length (m_msg_map q) < unat (m_capacity q)"
    "p \<notin> live q" "p < length h" "h ! p = MsgEntry_new i pr now"
    "\<And>x. x \<in> live q \<Longrightarrow> h ! x = m_heap q ! x"
    "distinct l" "set l = set (m_msg_pool q) - {p}" "{..<length h} = insert p {..<length (m_heap q)}"
    and res: "push q i pr d now now' = (Return (),
       (let q2 = q\<lparr> m_heap := h, m_msg_pool := l, m_msg_map := map_put i p (m_msg_map q) \<rparr>
        in if d \<noteq> 0 then insertDelayedMsg q2 p (now' + milliseconds d) else enqueue_front p pr q2))"
    using push_accepted[OF ok True] by metis
  let ?q2 = "q\<lparr> m_heap := h, m_msg_pool := l, m_msg_map := map_put i p (m_msg_map q) \<rparr>"
  have ent: "entry ?q2 x = (if x = p then MsgEntry_new i pr now else entry q x)" if "x \<in> insert p (live q)" for x
    using that P(4,6,7) by (auto simp: entry_def)
  have queued: "x \<in> live q" if "i < length (m_queue_list q)" "x \<in> set (m_queue_list q ! i)" for i x
    using in_queue_state[OF ok that] by simp
  have delayed: "x \<in> live q" if "x \<in> set (m_msg_delay q)" for x
    using that wf_delay[OF ok] by (simp add: with_state_def)
  then have nd: "p \<notin> set (m_msg_delay q)" using P(4) by blast
  have eq_map: "map (\<lambda>x. state_ts (entry ?q2 x)) (m_msg_delay q) = map (\<lambda>x. state_ts (entry q x)) (m_msg_delay q)"
    using delayed P(4) ent by (intro map_cong) auto
  have srt: "sorted (map (\<lambda>x. state_ts (entry ?q2 x)) (m_msg_delay q))"
    using wf_sorted_delay[OF ok] by (simp only: eq_map)
  have pl: "placed ?q2"
    using wf_placed[OF ok] queued P(4) ent by (fastforce simp: placed_def)
  show ?thesis
  proof (cases "d = 0")
    case True
    let ?q = "enqueue_front p pr ?q2"
    have "queue_ok ?q"
    proof (rule wf_insert[OF ok P(2,4,3), where e = "MsgEntry_new i pr now"])
      show "placed ?q" using pl ent[of p] by (intro placed_enqueue_front) (simp_all add: MsgEntry_new_def)
    qed (use P srt ent in \<open>auto simp: MsgEntry_new_def\<close>)
    with True res show ?thesis by simp
  next
    case False
    let ?q = "insertDelayedMsg ?q2 p (now' + milliseconds d)"
    let ?e = "(MsgEntry_new i pr now)\<lparr> state := MSG_DELAYED, state_ts := now' + milliseconds d \<rparr>"
    have ent': "entry ?q x = (if x = p then ?e else entry ?q2 x)" for x
      using P(5) ent[of p] by (simp add: entry_insertDelayedMsg)
    have "queue_ok ?q"
    proof (rule wf_insert[OF ok P(2,4,3), where e = ?e])
      show "placed ?q" using pl queued P(4) by (auto simp: placed_def ent')
      show "sorted (map (\<lambda>x. state_ts (entry ?q x)) (m_msg_delay ?q))"
        using P(5) nd srt by (intro sorted_insertDelayedMsg) auto
      show "entry ?q x = entry q x" if "x \<in> live q" for x
        using that P(4) ent[of x] ent'[of x] by auto
    qed (use P ent' in \<open>auto simp: MsgEntry_new_def\<close>)
    with False res show ?thesis by simp
  qed
qed

section \<open>Failed messages: \<open>eraseFailed\<close>\<close>

text \<open>
  The loop leaves the failed counter alone and its caller corrects it at the end, so the
  invariant holds of the loop with the correction applied.
\<close>

definition corrected :: "string list \<Rightarrow> Queue \<Rightarrow> Queue" where
  "corrected failed q = q\<lparr> m_count_failed := m_count_failed q - word_of_nat (length failed) \<rparr>"

lemma eraseFailed_corrected:
  "eraseFailed q is = (fst (erase_loop is [] q), corrected (fst (erase_loop is [] q)) (snd (erase_loop is [] q)))"
  by (simp add: eraseFailed_def corrected_def split: prod.splits)

lemma queue_ok_erase_loop:
  "queue_ok (corrected failed q) \<Longrightarrow> queue_ok (corrected (fst (erase_loop is failed q)) (snd (erase_loop is failed q)))"
proof (induction "is" failed q rule: erase_loop.induct)
  case (2 i "is" failed q)
  show ?case
  proof (cases "map_find (m_msg_map q) i")
    case None
    with 2 show ?thesis by simp
  next
    case (Some m)
    show ?thesis
    proof (cases "state (entry q m) = MSG_FAILED")
      case False
      with 2 Some show ?thesis by simp
    next
      case True
      let ?q = "q\<lparr> m_msg_pool := m_msg_pool q @ [m], m_msg_map := map_erase i (m_msg_map q) \<rparr>"
      have "queue_ok (corrected (failed @ [i]) ?q)"
        by (rule wf_remove[OF 2(4), of i m]) (use Some True in \<open>simp_all add: corrected_def\<close>)
      with 2(2) Some True show ?thesis by simp
    qed
  qed
qed simp

lemma queue_ok_eraseFailed [inv_intros]: "queue_ok q \<Longrightarrow> queue_ok (snd (eraseFailed q is))"
  using queue_ok_erase_loop[of "[]" q "is"] by (simp add: eraseFailed_corrected) (simp add: corrected_def)

section \<open>The monitor\<close>

text \<open>A queued message that is not boosted is in the deque of its own priority.\<close>

lemma own_queue:
  assumes ok: "queue_ok q" and p: "p \<in> live q" "state (entry q p) = MSG_QUEUED" "\<not> boosted (entry q p)"
  shows "p \<in> set (m_queue_list q ! unat (priority (entry q p)))"
proof -
  have "p \<in> set (concat (m_queue_list q))" using wf_queues[OF ok] p by (simp add: with_state_def)
  then obtain l where "l \<in> set (m_queue_list q)" "p \<in> set l" by auto
  then obtain i where "i < length (m_queue_list q)" "p \<in> set (m_queue_list q ! i)"
    by (metis in_set_conv_nth)
  with placedD[OF wf_placed[OF ok] this] p(3) show ?thesis by simp
qed

lemma monitor_msg_map [simp]:
  "m_msg_map (fst (monitor_msg ft bt s p)) = m_msg_map (fst s)"
  "m_capacity (fst (monitor_msg ft bt s p)) = m_capacity (fst s)"
  "m_msg_pool (fst (monitor_msg ft bt s p)) = m_msg_pool (fst s)"
  "m_msg_delay (fst (monitor_msg ft bt s p)) = m_msg_delay (fst s)"
  "m_pop_cv (fst (monitor_msg ft bt s p)) = m_pop_cv (fst s)"
  "m_run (fst (monitor_msg ft bt s p)) = m_run (fst s)"
  "length (m_queue_list (fst (monitor_msg ft bt s p))) = length (m_queue_list (fst s))"
  by (cases s; simp add: monitor_msg_def call_err_cb_def Let_def)+

text \<open>The four things the scan does with a message of a well-formed queue.\<close>

lemma monitor_msg_cases:
  assumes ok: "queue_ok q" and p: "p \<in> live q"
  obtains (skip) "monitor_msg ft bt (q, n) p = (q, n)"
  | (fail) "state (entry q p) = MSG_RUNNING" "m_fail_timeout q \<noteq> 0" "state_ts (entry q p) < ft"
      "ucast (fail_count (entry q p) + 1) = m_max_retries q"
      "monitor_msg ft bt (q, n) p = (set_entry p ((entry q p)\<lparr> fail_count := fail_count (entry q p) + 1,
          state := MSG_FAILED \<rparr>) (q\<lparr> m_count_failed := m_count_failed q + 1 \<rparr>), n)"
  | (retry) "state (entry q p) = MSG_RUNNING" "m_fail_timeout q \<noteq> 0" "state_ts (entry q p) < ft"
      "ucast (fail_count (entry q p) + 1) \<noteq> m_max_retries q"
      "monitor_msg ft bt (q, n) p = (set_entry p ((entry q p)\<lparr> fail_count := fail_count (entry q p) + 1,
          state := MSG_QUEUED, message := (message (entry q p))\<lparr> msg_token := [] \<rparr> \<rparr>)
          (q\<lparr> m_queue_list := push_front (unat (priority (entry q p))) p (m_queue_list q),
              m_count_queued := m_count_queued q + 1 \<rparr>), n + 1)"
  | (boost) "state (entry q p) = MSG_QUEUED" "priority (entry q p) > 0" "\<not> boosted (entry q p)"
      "state_ts (entry q p) < bt"
      "monitor_msg ft bt (q, n) p = (set_entry p ((entry q p)\<lparr> boosted := True \<rparr>)
          (q\<lparr> m_queue_list := push_front 0 p
                (erase_first (unat (priority (entry q p))) p (m_queue_list q)) \<rparr>), n)"
proof -
  consider "state (entry q p) = MSG_RUNNING \<and> m_fail_timeout q \<noteq> 0 \<and> state_ts (entry q p) < ft
      \<and> ucast (fail_count (entry q p) + 1) = m_max_retries q"
    | "state (entry q p) = MSG_RUNNING \<and> m_fail_timeout q \<noteq> 0 \<and> state_ts (entry q p) < ft
      \<and> ucast (fail_count (entry q p) + 1) \<noteq> m_max_retries q"
    | "state (entry q p) = MSG_QUEUED \<and> priority (entry q p) > 0 \<and> \<not> boosted (entry q p)
      \<and> state_ts (entry q p) < bt"
    | "\<not> (state (entry q p) = MSG_RUNNING \<and> m_fail_timeout q \<noteq> 0 \<and> state_ts (entry q p) < ft)"
      "\<not> (state (entry q p) = MSG_QUEUED \<and> priority (entry q p) > 0 \<and> \<not> boosted (entry q p)
      \<and> state_ts (entry q p) < bt)"
    by blast
  then show thesis
  proof cases
    case 1
    then show thesis by (intro fail) (auto simp: monitor_msg_def Let_def)
  next
    case 2
    then show thesis by (intro retry) (auto simp: monitor_msg_def Let_def)
  next
    case 3
    then show thesis using own_queue[OF ok p] by (intro boost) (auto simp: monitor_msg_def Let_def)
  next
    case 4
    then show thesis by (intro skip) (auto simp: monitor_msg_def Let_def)
  qed
qed

lemma queue_ok_monitor_msg:
  assumes ok: "queue_ok q" and p: "p \<in> live q"
  shows "queue_ok (fst (monitor_msg ft bt (q, n) p))"
proof -
  have lt: "p < length (m_heap q)" using wf_live_heap[OF ok p] .
  have pr: "unat (priority (entry q p)) < length (m_queue_list q)" using wf_priority[OF ok p] .
  from ok p show ?thesis
  proof (cases rule: monitor_msg_cases[where ft = ft and bt = bt and n = n])
    case skip
    then show ?thesis using ok by simp
  next
    case fail
    let ?e = "(entry q p)\<lparr> fail_count := fail_count (entry q p) + 1, state := MSG_FAILED \<rparr>"
    let ?q = "set_entry p ?e (q\<lparr> m_count_failed := m_count_failed q + 1 \<rparr>)"
    have ent: "entry ?q x = (if x = p then ?e else entry q x)" for x using lt by (simp add: entry_set_entry)
    have "queue_ok ?q"
    proof (rule wf_move[OF ok p, where e = ?e])
      show "placed ?q" by (rule placed_move[OF wf_placed[OF ok], where p = p])
          (use ent not_in_queue[OF ok, of p] fail(1) in auto)
      show "sorted (map (\<lambda>x. state_ts (entry ?q x)) (m_msg_delay ?q))"
        using sorted_delay_frame[OF ok, of p ?q] not_in_delay[OF ok, of p] fail(1) ent by simp
    qed (use fail(1) wf_token[OF ok p] in auto)
    then show ?thesis using fail(5) by simp
  next
    case retry
    let ?e = "(entry q p)\<lparr> fail_count := fail_count (entry q p) + 1, state := MSG_QUEUED,
        message := (message (entry q p))\<lparr> msg_token := [] \<rparr> \<rparr>"
    let ?q = "set_entry p ?e (q\<lparr> m_queue_list := push_front (unat (priority (entry q p))) p (m_queue_list q),
        m_count_queued := m_count_queued q + 1 \<rparr>)"
    have ent: "entry ?q x = (if x = p then ?e else entry q x)" for x using lt by (simp add: entry_set_entry)
    have "queue_ok ?q"
    proof (rule wf_move[OF ok p, where e = ?e])
      show "placed ?q" by (rule placed_move[OF wf_placed[OF ok], where p = p])
          (use ent not_in_queue[OF ok, of p] retry(1) in auto)
      show "sorted (map (\<lambda>x. state_ts (entry ?q x)) (m_msg_delay ?q))"
        using sorted_delay_frame[OF ok, of p ?q] not_in_delay[OF ok, of p] retry(1) ent by simp
    qed (use retry(1) pr in auto)
    then show ?thesis using retry(5) by simp
  next
    case boost
    let ?e = "(entry q p)\<lparr> boosted := True \<rparr>"
    let ?i = "unat (priority (entry q p))"
    let ?q = "set_entry p ?e (q\<lparr> m_queue_list := push_front 0 p (erase_first ?i p (m_queue_list q)) \<rparr>)"
    have ent: "entry ?q x = (if x = p then ?e else entry q x)" for x using lt by (simp add: entry_set_entry)
    have mem: "p \<in> set (m_queue_list q ! ?i)" using own_queue[OF ok p boost(1,3)] .
    have pos: "0 < length (erase_first ?i p (m_queue_list q))"
      using pr by (simp del: length_greater_0_conv)
    have sub: "x \<in> set (erase_first ?i p (m_queue_list q) ! j) \<Longrightarrow> x \<in> set (m_queue_list q ! j)"
      if "j < length (m_queue_list q)" for j x
      using that notin_set_remove1 by (fastforce simp: nth_push split: if_splits)
    have "queue_ok ?q"
    proof (rule wf_move[OF ok p, where e = ?e])
      show "placed ?q" by (rule placed_move[OF wf_placed[OF ok], where p = p])
          (use ent sub placedD[OF wf_placed[OF ok], of _ p] pr in auto)
      show "sorted (map (\<lambda>x. state_ts (entry ?q x)) (m_msg_delay ?q))"
        using sorted_delay_frame[OF ok, of p ?q] not_in_delay[OF ok, of p] boost(1) ent by simp
      show "mset (concat (m_queue_list ?q)) + one_if (state (entry q p) = MSG_QUEUED) p
          = mset (concat (m_queue_list q)) + one_if (state ?e = MSG_QUEUED) p"
        using mset_erase_first[OF pr mem] mset_push_front[OF pos] by simp
    qed (use boost(1) wf_token[OF ok p] pr in auto)
    then show ?thesis using boost(5) by simp
  qed
qed

text \<open>The scan: the loop runs over live entries, and the map does not change under it.\<close>

lemma foldl_invariant:
  "I s \<Longrightarrow> (\<And>s x. I s \<Longrightarrow> x \<in> set xs \<Longrightarrow> I (f s x)) \<Longrightarrow> I (foldl f s xs)"
  by (induction xs arbitrary: s) auto

lemma monitor_loop_ok:
  fixes n :: nat
  assumes "queue_ok q" and "set ps \<subseteq> live q"
  shows "queue_ok (fst (foldl (monitor_msg ft bt) (q, n) ps)) \<and>
    m_msg_map (fst (foldl (monitor_msg ft bt) (q, n) ps)) = m_msg_map q"
proof (rule foldl_invariant[where I = "\<lambda>s. queue_ok (fst s) \<and> m_msg_map (fst s) = m_msg_map q"])
  fix s :: "Queue \<times> nat" and x assume s: "queue_ok (fst s) \<and> m_msg_map (fst s) = m_msg_map q" and x: "x \<in> set ps"
  have "live (fst s) = live q" using s by (simp add: live_def)
  with x assms(2) have "x \<in> live (fst s)" by auto
  with s queue_ok_monitor_msg[of "fst s" x ft bt "snd s"]
  show "queue_ok (fst (monitor_msg ft bt s x)) \<and> m_msg_map (fst (monitor_msg ft bt s x)) = m_msg_map q"
    by simp
qed (use assms in simp)

lemma monitor_scan_ok:
  "queue_ok q \<Longrightarrow> queue_ok (fst (monitor_scan q now)) \<and> m_msg_map (fst (monitor_scan q now)) = m_msg_map q"
  unfolding monitor_scan_def by (rule monitor_loop_ok) (auto simp: live_def)

lemma queue_ok_monitor_poll [inv_intros]: "queue_ok q \<Longrightarrow> queue_ok (snd (monitor_poll q now))"
  using monitor_scan_ok[of q now] by (auto simp: monitor_poll_def split: prod.splits)

section \<open>The delay thread\<close>

abbreviation released :: "MsgEntry_t \<Rightarrow> timestamp \<Rightarrow> MsgEntry_t" where
  "released e now \<equiv> e\<lparr> state := MSG_QUEUED, state_ts := now \<rparr>"

lemma release_one_spec:
  assumes ok: "queue_ok q" and ds: "m_msg_delay q = p # ds"
  shows "release_one q now p = (set_entry p (released (entry q p) now) q)
      \<lparr> m_queue_list := push_back (unat (priority (entry q p))) p (m_queue_list q),
         m_count_queued := m_count_queued q + 1, m_pop_cv := notify_one (m_pop_cv q), m_msg_delay := ds \<rparr>"
    and "p \<in> live q" and "state (entry q p) = MSG_DELAYED"
proof -
  have "p \<in> with_state q MSG_DELAYED" using wf_delay[OF ok] ds by auto
  then show p: "p \<in> live q" and "state (entry q p) = MSG_DELAYED" by (simp_all add: with_state_def)
  show "release_one q now p = (set_entry p (released (entry q p) now) q)
      \<lparr> m_queue_list := push_back (unat (priority (entry q p))) p (m_queue_list q),
         m_count_queued := m_count_queued q + 1, m_pop_cv := notify_one (m_pop_cv q), m_msg_delay := ds \<rparr>"
    using wf_live_heap[OF ok p] ds by (simp add: release_one_def Let_def entry_set_entry)
qed

lemma queue_ok_release_one:
  assumes ok: "queue_ok q" and ds: "m_msg_delay q = p # ds"
  shows "queue_ok (release_one q now p)" (is "queue_ok ?q")
proof -
  let ?e = "released (entry q p) now"
  note rel = release_one_spec(1)[OF ok ds, of now] release_one_spec(2,3)[OF ok ds]
  have lt: "p < length (m_heap q)" using wf_live_heap[OF ok rel(2)] .
  have ent: "entry ?q x = (if x = p then ?e else entry q x)" for x
    using lt by (simp add: rel(1) entry_set_entry)
  have pr: "unat (priority (entry q p)) < length (m_queue_list q)" using wf_priority[OF ok rel(2)] .
  have "distinct (p # ds)" using wf_delay_distinct[OF ok] ds by simp
  then have "map (\<lambda>x. state_ts (entry ?q x)) ds = map (\<lambda>x. state_ts (entry q x)) ds"
    using ent by (intro map_cong) auto
  then have "sorted (map (\<lambda>x. state_ts (entry ?q x)) ds)"
    using wf_sorted_delay[OF ok] ds by (simp only: list.map sorted_simps)
  moreover have "placed ?q"
    by (rule placed_move[OF wf_placed[OF ok], where p = p])
      (use ent not_in_queue[OF ok, of p] rel(3) in \<open>auto simp: rel(1)\<close>)
  ultimately show ?thesis
    by (intro wf_move[OF ok rel(2), where e = ?e])
      (use rel(3) pr wf_token[OF ok rel(2)] ds in \<open>simp_all add: rel(1)\<close>)
qed

lemma release_due_step:
  "m_msg_delay q = p # ds \<Longrightarrow> state_ts (entry q p) \<le> now \<Longrightarrow>
     release_due q now = release_due (release_one q now p) now"
  by (subst release_due.simps) simp

lemma release_due_stop:
  "m_msg_delay q = [] \<or> now < state_ts (entry q (hd (m_msg_delay q))) \<Longrightarrow> release_due q now = q"
  by (subst release_due.simps) auto

text \<open>Induction over the inner loop: an invariant of one release holds of the whole loop.\<close>

lemma release_due_invariant:
  assumes "I q"
    and "\<And>q p ds. I q \<Longrightarrow> m_msg_delay q = p # ds \<Longrightarrow> state_ts (entry q p) \<le> now \<Longrightarrow> I (release_one q now p)"
  shows "I (release_due q now)"
  using assms
proof (induction q now rule: release_due.induct)
  case (1 q now)
  show ?case
  proof (cases "m_msg_delay q \<noteq> [] \<and> state_ts (entry q (hd (m_msg_delay q))) \<le> now")
    case True
    then obtain p ds where p: "m_msg_delay q = p # ds" "state_ts (entry q p) \<le> now"
      by (auto simp: neq_Nil_conv)
    have "I (release_due (release_one q now p) now)"
      using 1 p by simp
    then show ?thesis by (simp add: release_due_step[OF p])
  next
    case False
    then have "release_due q now = q" by (intro release_due_stop) auto
    with 1 show ?thesis by simp
  qed
qed

lemma queue_ok_release_due [inv_intros]: "queue_ok q \<Longrightarrow> queue_ok (release_due q now)"
  by (rule release_due_invariant) (use queue_ok_release_one in auto)

lemma queue_ok_delay_poll [inv_intros]: "queue_ok q \<Longrightarrow> queue_ok (snd (delay_poll q now))"
  by (simp add: delay_poll_def queue_ok_release_due)

text \<open>The remaining entry points.\<close>

lemma queue_ok_others [inv_intros]:
  "queue_ok q \<Longrightarrow> queue_ok (snd (pop q now rnd))"
  "queue_ok q \<Longrightarrow> queue_ok (snd (pop_resume q now rnd))"
  "queue_ok q \<Longrightarrow> queue_ok (snd (ack q i tok rq d now))"
  "queue_ok q \<Longrightarrow> queue_ok (setErrorCallback b q)"
  by (simp_all add: pop_def pop_resume_def ack_def setErrorCallback_def queue_ok_popImpl queue_ok_ackImpl)

lemma popAck_cases:
  obtains (rejected) e where "ackImpl q i tok rq d now = (Throw e, q)"
      "popAck q i tok rq d now now' rnd = (Throw e, q)"
  | (acked) q1 where "ackImpl q i tok rq d now = (Return (), q1)"
      "popAck q i tok rq d now now' rnd = popImpl q1 now' rnd"
  by (cases rule: ackImpl_cases[of q i tok rq d now]) (auto simp: popAck_def)

lemma queue_ok_popAck [inv_intros]:
  assumes "queue_ok q"
  shows "queue_ok (snd (popAck q i tok rq d now now' rnd))"
  using assms queue_ok_ackImpl[OF assms, of i tok rq d now]
  by (cases rule: popAck_cases[of q i tok rq d now now' rnd]) (auto intro: queue_ok_popImpl)

end
