(* ===== verification/Transition_Systems.thy ===== *)
theory Transition_Systems
  imports Main
begin

text \<open>
  Labelled transition systems: reachable states, invariants and runs, independent of the
  program. A component states its contract by interpreting \<open>inductive_invariant\<close>; the facts
  on reachable states and on runs then hold of it.
\<close>

inductive reachable :: "('s \<Rightarrow> bool) \<Rightarrow> ('s \<Rightarrow> 'l \<Rightarrow> 's \<Rightarrow> bool) \<Rightarrow> 's \<Rightarrow> bool"
  for init :: "'s \<Rightarrow> bool" and step :: "'s \<Rightarrow> 'l \<Rightarrow> 's \<Rightarrow> bool"
where
  start: "init s \<Longrightarrow> reachable init step s"
| step: "reachable init step s \<Longrightarrow> step s l t \<Longrightarrow> reachable init step t"

inductive run :: "('s \<Rightarrow> 'l \<Rightarrow> 's \<Rightarrow> bool) \<Rightarrow> 's \<Rightarrow> 'l list \<Rightarrow> 's \<Rightarrow> bool"
  for step :: "'s \<Rightarrow> 'l \<Rightarrow> 's \<Rightarrow> bool"
where
  run_Nil: "run step s [] s"
| run_Cons: "step s l t \<Longrightarrow> run step t ls u \<Longrightarrow> run step s (l # ls) u"

inductive_cases run_NilE: "run step s [] t"
inductive_cases run_ConsE: "run step s (l # ls) t"

lemma run_reachable: "run step s ls t \<Longrightarrow> reachable init step s \<Longrightarrow> reachable init step t"
  by (induction rule: run.induct) (auto intro: reachable.step)

locale inductive_invariant =
  fixes init :: "'s \<Rightarrow> bool" and step :: "'s \<Rightarrow> 'l \<Rightarrow> 's \<Rightarrow> bool" and inv :: "'s \<Rightarrow> bool"
  assumes init_inv: "init s \<Longrightarrow> inv s"
    and step_inv: "inv s \<Longrightarrow> step s l t \<Longrightarrow> inv t"
begin

lemma reachable_inv: "reachable init step s \<Longrightarrow> inv s"
  by (induction rule: reachable.induct) (auto intro: init_inv step_inv)

lemma run_inv: "run step s ls t \<Longrightarrow> inv s \<Longrightarrow> inv t"
  by (induction rule: run.induct) (auto intro: step_inv)

end

text \<open>
  A forward simulation on the states that satisfy an invariant: each step of the program is a
  step of the specification between the abstractions, so every run is one of the
  specification's.
\<close>

locale simulation = inductive_invariant init step inv
  for init :: "'s \<Rightarrow> bool" and step :: "'s \<Rightarrow> 'l \<Rightarrow> 's \<Rightarrow> bool" and inv :: "'s \<Rightarrow> bool" +
  fixes abs :: "'s \<Rightarrow> 'a" and lab :: "'l \<Rightarrow> 'm"
    and ainit :: "'a \<Rightarrow> bool" and astep :: "'a \<Rightarrow> 'm \<Rightarrow> 'a \<Rightarrow> bool"
  assumes init_sim: "init s \<Longrightarrow> ainit (abs s)"
    and step_sim: "inv s \<Longrightarrow> step s l t \<Longrightarrow> astep (abs s) (lab l) (abs t)"
begin

lemma reachable_sim: "reachable init step s \<Longrightarrow> reachable ainit astep (abs s)"
  by (induction rule: reachable.induct)
    (auto intro: reachable.intros init_sim step_sim dest: reachable_inv)

lemma run_sim: "run step s ls t \<Longrightarrow> inv s \<Longrightarrow> run astep (abs s) (map lab ls) (abs t)"
proof (induction rule: run.induct)
  case (run_Cons s l t ls u)
  then show ?case using step_inv by (auto intro: run.run_Cons step_sim)
qed (simp add: run.run_Nil)

end

end
