(* ===== verification/Queue_System.thy ===== *)
theory Queue_System
  imports Queue_Preserve Transition_Systems
begin

text \<open>
  The queue as a shared object: any number of publisher and consumer threads, the monitor
  thread and the delay thread call the operations in any order. Each operation holds
  \<open>m_mutex\<close> from start to end or until it sleeps, so a step is one operation, or the part of
  a \<open>pop\<close> after the thread has been woken.
\<close>

datatype event =
    Push string u8 u64 timestamp timestamp "unit outcome"
  | Pop timestamp u64 "ptr outcome"
  | Pop_resume timestamp u64 "ptr outcome"
  | Pop_spurious
  | Ack string string bool u64 timestamp "unit outcome"
  | Pop_ack string string bool u64 timestamp timestamp u64 "ptr outcome"
  | Erase_failed "string list" "string list"
  | Monitor_poll timestamp
  | Delay_poll timestamp

inductive queue_step :: "Queue \<Rightarrow> event \<Rightarrow> Queue \<Rightarrow> bool" where
  step_push: "push q i pr d now now' = (r, q') \<Longrightarrow> queue_step q (Push i pr d now now' r) q'"
| step_pop: "pop q now rnd = (r, q') \<Longrightarrow> queue_step q (Pop now rnd r) q'"
| step_resume: "cv_woken (m_pop_cv q) > 0 \<Longrightarrow> pop_resume q now rnd = (r, q') \<Longrightarrow>
    queue_step q (Pop_resume now rnd r) q'"
| step_spurious: "cv_waiting (m_pop_cv q) > 0 \<Longrightarrow>
    queue_step q Pop_spurious (q\<lparr> m_pop_cv := notify_one (m_pop_cv q) \<rparr>)"
| step_ack: "ack q i tok rq d now = (r, q') \<Longrightarrow> queue_step q (Ack i tok rq d now r) q'"
| step_pop_ack: "popAck q i tok rq d now now' rnd = (r, q') \<Longrightarrow>
    queue_step q (Pop_ack i tok rq d now now' rnd r) q'"
| step_erase: "eraseFailed q is = (ids, q') \<Longrightarrow> queue_step q (Erase_failed is ids) q'"
| step_monitor: "monitor_poll q now = (True, q') \<Longrightarrow> queue_step q (Monitor_poll now) q'"
| step_delay: "delay_poll q now = (True, q') \<Longrightarrow> queue_step q (Delay_poll now) q'"

definition queue_init :: "Queue \<Rightarrow> bool" where
  "queue_init q \<longleftrightarrow> (\<exists>np cap ft mr bt mp cb. q = Queue_create np cap ft mr bt mp cb)"

inductive_cases queue_stepE: "queue_step q ev q'"

lemma queue_step_ok: "queue_step q ev q' \<Longrightarrow> queue_ok q \<Longrightarrow> queue_ok q'"
  by (induction rule: queue_step.induct) (metis inv_intros snd_conv queue_ok_fields(5))+

interpretation queue_sys: inductive_invariant queue_init queue_step queue_ok
  by unfold_locales (auto simp: queue_init_def queue_ok_create intro: queue_step_ok)

section \<open>No lost wake-up\<close>

text \<open>
  Consumers sleep on \<open>m_pop_cv\<close>. As long as one sleeps, at least as many others have been
  woken and not yet run as there are messages queued.
\<close>

definition wakeup_ok :: "Queue \<Rightarrow> bool" where
  "wakeup_ok q \<longleftrightarrow> unat (m_count_queued q) \<le> cv_woken (m_pop_cv q) \<or> cv_waiting (m_pop_cv q) = 0"

lemma unat_Suc_le: "unat (c + 1 :: u64) \<le> unat c + 1"
  by (metis Suc_eq_plus1 dual_order.refl le_SucI unat_eq_zero unatSuc zero_le add.commute)

lemma wakeup_notify:
  assumes "wakeup_ok q" and "m_count_queued q' = m_count_queued q + 1"
    and "m_pop_cv q' = notify_one (m_pop_cv q)"
  shows "wakeup_ok q'"
  using assms unat_Suc_le[of "m_count_queued q"] by (auto simp: wakeup_ok_def notify_one_def)

lemma wakeup_same:
  "wakeup_ok q \<Longrightarrow> m_count_queued q' = m_count_queued q \<Longrightarrow> m_pop_cv q' = m_pop_cv q \<Longrightarrow> wakeup_ok q'"
  by (simp add: wakeup_ok_def)

lemma popImpl_cv:
  "m_pop_cv (snd (popImpl q now rnd)) =
     (if m_count_queued q = 0 then cv_wait (m_pop_cv q) else m_pop_cv q)"
  "pop_first (m_queue_list q) \<noteq> None \<Longrightarrow>
     m_count_queued (snd (popImpl q now rnd)) =
     (if m_count_queued q = 0 then 0 else m_count_queued q - 1)"
  by (auto simp: popImpl_def Let_def split: option.splits)

lemma unat_pred: "c \<noteq> 0 \<Longrightarrow> unat (c - 1 :: u64) = unat c - 1"
  by (metis unat_minus_one)

text \<open>
  \<open>popImpl\<close> by a thread that was woken (\<open>k = 1\<close>) or that just arrived (\<open>k = 0\<close>): the loop
  takes a message off the count or goes to sleep on an empty queue.
\<close>

lemma wakeup_popImpl:
  assumes ok: "queue_ok q" and w: "unat (m_count_queued q) \<le> cv_woken (m_pop_cv q) + 1 \<or> cv_waiting (m_pop_cv q) = 0"
  shows "wakeup_ok (snd (popImpl q now rnd))"
proof (cases "m_count_queued q = 0")
  case True
  then show ?thesis by (simp add: popImpl_def wakeup_ok_def)
next
  case False
  then have "pop_first (m_queue_list q) \<noteq> None" using pop_available[OF ok] by auto
  then show ?thesis
    using False w by (auto simp: wakeup_ok_def popImpl_cv unat_pred)
qed

lemma wakeup_resume:
  "queue_ok q \<Longrightarrow> wakeup_ok q \<Longrightarrow> cv_woken (m_pop_cv q) > 0 \<Longrightarrow> wakeup_ok (snd (pop_resume q now rnd))"
  unfolding pop_resume_def by (rule wakeup_popImpl) (auto simp: wakeup_ok_def cv_resume_def)

lemma wakeup_pop: "queue_ok q \<Longrightarrow> wakeup_ok q \<Longrightarrow> wakeup_ok (snd (popImpl q now rnd))"
  by (rule wakeup_popImpl) (auto simp: wakeup_ok_def)

lemma wakeup_ackImpl: "wakeup_ok q \<Longrightarrow> wakeup_ok (snd (ackImpl q i tok rq d now))"
proof (cases rule: ackImpl_cases[of q i tok rq d now])
  case (requeue p)
  assume "wakeup_ok q"
  then show ?thesis unfolding requeue(6) by (auto intro: wakeup_notify)
qed (auto intro: wakeup_same)

lemma wakeup_popAck:
  assumes "queue_ok q" and "wakeup_ok q"
  shows "wakeup_ok (snd (popAck q i tok rq d now now' rnd))"
proof (cases rule: popAck_cases[of q i tok rq d now now' rnd])
  case (rejected e)
  with assms show ?thesis by simp
next
  case (acked q1)
  with assms have "queue_ok q1" "wakeup_ok q1"
    using queue_ok_ackImpl[of q i tok rq d now] wakeup_ackImpl[of q i tok rq d now] by simp_all
  with acked(2) show ?thesis by (simp add: wakeup_pop)
qed

lemma getMsgEntry_frame [simp]:
  "m_count_queued (snd (getMsgEntry q i pr now)) = m_count_queued q"
  "m_pop_cv (snd (getMsgEntry q i pr now)) = m_pop_cv q"
  by (simp_all add: getMsgEntry_def Let_def)

lemma wakeup_push: "wakeup_ok q \<Longrightarrow> wakeup_ok (snd (push q i pr d now now'))"
proof -
  assume w: "wakeup_ok q"
  obtain p q1 where g: "getMsgEntry q i pr now = (p, q1)" by fastforce
  then have f: "m_count_queued q1 = m_count_queued q" "m_pop_cv q1 = m_pop_cv q"
    using getMsgEntry_frame[of q i pr now] by simp_all
  show ?thesis
    using w f by (auto simp: push_def g Let_def intro: wakeup_same wakeup_notify)
qed

lemma erase_loop_frame:
  "m_count_queued (snd (erase_loop is f q)) = m_count_queued q \<and> m_pop_cv (snd (erase_loop is f q)) = m_pop_cv q"
  by (induction "is" f q rule: erase_loop.induct) (auto split: option.splits)

lemma wakeup_erase: "wakeup_ok q \<Longrightarrow> wakeup_ok (snd (eraseFailed q is))"
  using erase_loop_frame[of "is" "[]" q]
  by (erule_tac wakeup_same[of q]) (simp_all add: eraseFailed_corrected corrected_def)

text \<open>The monitor counts in \<open>notify\<close> how many messages it put back.\<close>

lemma monitor_msg_count:
  "snd s \<le> snd (monitor_msg ft bt s p) \<and>
   unat (m_count_queued (fst (monitor_msg ft bt s p))) + snd s
     \<le> unat (m_count_queued (fst s)) + snd (monitor_msg ft bt s p)"
  using unat_Suc_le[of "m_count_queued (fst s)"]
  by (cases s) (auto simp: monitor_msg_def Let_def call_err_cb_def)

lemma monitor_loop_count:
  "snd s \<le> snd (foldl (monitor_msg ft bt) s ps) \<and>
   unat (m_count_queued (fst (foldl (monitor_msg ft bt) s ps))) + snd s
     \<le> unat (m_count_queued (fst s)) + snd (foldl (monitor_msg ft bt) s ps) \<and>
   m_pop_cv (fst (foldl (monitor_msg ft bt) s ps)) = m_pop_cv (fst s)"
proof (induction ps arbitrary: s)
  case (Cons p ps)
  from Cons[of "monitor_msg ft bt s p"] monitor_msg_count[of s ft bt p] show ?case by simp
qed simp

lemma wakeup_monitor: "wakeup_ok q \<Longrightarrow> wakeup_ok (snd (monitor_poll q now))"
proof -
  assume w: "wakeup_ok q"
  obtain q1 n where s: "monitor_scan q now = (q1, n)" by fastforce
  have "unat (m_count_queued q1) \<le> unat (m_count_queued q) + n" "m_pop_cv q1 = m_pop_cv q"
    using monitor_loop_count[of "(q, 0)"] s unfolding monitor_scan_def by (metis add_0_right fst_conv snd_conv)+
  then show ?thesis
    using w by (auto simp: monitor_poll_def s wakeup_ok_def notify_one_def notify_all_def)
qed

lemma wakeup_release: "wakeup_ok q \<Longrightarrow> wakeup_ok (release_due q now)"
  by (rule release_due_invariant) (auto simp: release_one_def Let_def intro: wakeup_notify)

lemma queue_step_wakeup:
  "queue_step q ev q' \<Longrightarrow> queue_ok q \<Longrightarrow> wakeup_ok q \<Longrightarrow> wakeup_ok q'"
proof (induction rule: queue_step.induct)
  case (step_push q i pr d now now' r q')
  then show ?case using wakeup_push[of q i pr d now now'] by simp
next
  case (step_pop q now rnd r q')
  then show ?case using wakeup_pop[of q now rnd] by (simp add: pop_def)
next
  case (step_resume q now rnd r q')
  then show ?case using wakeup_resume[of q now rnd] by simp
next
  case (step_spurious q)
  then show ?case by (auto simp: wakeup_ok_def notify_one_def)
next
  case (step_ack q i tok rq d now r q')
  then show ?case using wakeup_ackImpl[of q i tok rq d now] by (simp add: ack_def)
next
  case (step_pop_ack q i tok rq d now now' rnd r q')
  then show ?case using wakeup_popAck[of q i tok rq d now now' rnd] by simp
next
  case (step_erase q "is" ids q')
  then show ?case using wakeup_erase[of q "is"] by simp
next
  case (step_monitor q now q')
  then show ?case using wakeup_monitor[of q now] by simp
next
  case (step_delay q now q')
  then show ?case using wakeup_release[of q now] by (auto simp: delay_poll_def split: if_splits)
qed

interpretation queue_wakeup: inductive_invariant queue_init queue_step "\<lambda>q. queue_ok q \<and> wakeup_ok q"
proof
  show "queue_ok q \<and> wakeup_ok q" if "queue_init q" for q
    using that queue_sys.init_inv[OF that] by (auto simp: queue_init_def wakeup_ok_def Queue_create_def)
  show "queue_ok t \<and> wakeup_ok t" if "queue_ok s \<and> wakeup_ok s" "queue_step s l t" for s l t
    using that queue_step_ok queue_step_wakeup by blast
qed

end
