(* ===== verification/Queue_Effects.thy ===== *)
theory Queue_Effects
  imports Queue_System
begin

text \<open>
  What the operations do to single messages: the effect of the monitor scan and of the delay
  thread on each entry, the sequence in which consumers receive messages, and the secondary
  invariants on retry counters and on memory.
\<close>

section \<open>The monitor scan, message by message\<close>

text \<open>The entry a scan leaves behind depends only on the entry it finds.\<close>

definition scanned :: "u64 \<Rightarrow> u64 \<Rightarrow> timestamp \<Rightarrow> timestamp \<Rightarrow> MsgEntry_t \<Rightarrow> MsgEntry_t" where
  "scanned ack_timeout retries ft bt e =
     (if state e = MSG_RUNNING \<and> ack_timeout \<noteq> 0 \<and> state_ts e < ft then
        (if ucast (fail_count e + 1) = retries
         then e\<lparr> fail_count := fail_count e + 1, state := MSG_FAILED \<rparr>
         else e\<lparr> fail_count := fail_count e + 1, state := MSG_QUEUED,
                 message := (message e)\<lparr> msg_token := [] \<rparr> \<rparr>)
      else if state e = MSG_QUEUED \<and> priority e > 0 \<and> \<not> boosted e \<and> state_ts e < bt then
        e\<lparr> boosted := True \<rparr>
      else e)"

lemma monitor_msg_params [simp]:
  "m_fail_timeout (fst (monitor_msg ft bt s p)) = m_fail_timeout (fst s)"
  "m_max_retries (fst (monitor_msg ft bt s p)) = m_max_retries (fst s)"
  "m_boost_timeout (fst (monitor_msg ft bt s p)) = m_boost_timeout (fst s)"
  by (cases s; simp add: monitor_msg_def call_err_cb_def Let_def)+

lemma monitor_msg_entry:
  assumes ok: "queue_ok q" and p: "p \<in> live q"
  shows "entry (fst (monitor_msg ft bt (q, n) p)) x =
    (if x = p then scanned (m_fail_timeout q) (m_max_retries q) ft bt (entry q p) else entry q x)"
proof -
  have lt: "p < length (m_heap q)" using wf_live_heap[OF ok p] .
  have own: "state (entry q p) = MSG_QUEUED \<Longrightarrow> \<not> boosted (entry q p) \<Longrightarrow>
      p \<in> set (m_queue_list q ! unat (priority (entry q p)))" using own_queue[OF ok p] .
  show ?thesis
    using own lt by (auto simp: monitor_msg_def scanned_def Let_def entry_set_entry)
qed

lemma monitor_msg_err:
  assumes ok: "queue_ok q" and p: "p \<in> live q"
  shows "m_err_cb (fst (monitor_msg ft bt (q, n) p)) = m_err_cb q"
  using own_queue[OF ok p] by (auto simp: monitor_msg_def Let_def)

lemma monitor_loop_entry:
  assumes "queue_ok q" and "distinct ps" and "set ps \<subseteq> live q"
  shows "entry (fst (foldl (monitor_msg ft bt) (q, n) ps)) x =
      (if x \<in> set ps then scanned (m_fail_timeout q) (m_max_retries q) ft bt (entry q x) else entry q x)
    \<and> m_err_cb (fst (foldl (monitor_msg ft bt) (q, n) ps)) = m_err_cb q"
  using assms
proof (induction ps arbitrary: q n)
  case (Cons p ps)
  obtain q1 n1 where s: "monitor_msg ft bt (q, n) p = (q1, n1)" by fastforce
  have p: "p \<in> live q" using Cons.prems(3) by simp
  have ok1: "queue_ok q1" using queue_ok_monitor_msg[OF Cons.prems(1) p, of ft bt n] s by simp
  have same: "live q1 = live q" "m_fail_timeout q1 = m_fail_timeout q" "m_max_retries q1 = m_max_retries q"
    using monitor_msg_map(1)[of ft bt "(q, n)" p] monitor_msg_params[of ft bt "(q, n)" p]
    by (simp_all add: s live_def)
  have e: "entry q1 y = (if y = p then scanned (m_fail_timeout q) (m_max_retries q) ft bt (entry q p) else entry q y)" for y
    using monitor_msg_entry[OF Cons.prems(1) p, of ft bt n y] s by simp
  have err: "m_err_cb q1 = m_err_cb q" using monitor_msg_err[OF Cons.prems(1) p, of ft bt n] s by simp
  have IH: "entry (fst (foldl (monitor_msg ft bt) (q1, n1) ps)) x =
      (if x \<in> set ps then scanned (m_fail_timeout q1) (m_max_retries q1) ft bt (entry q1 x) else entry q1 x)
    \<and> m_err_cb (fst (foldl (monitor_msg ft bt) (q1, n1) ps)) = m_err_cb q1"
    using Cons.IH[OF ok1] Cons.prems same by simp
  show ?case using IH Cons.prems(2) same err by (auto simp: s e)
qed simp

lemma live_map_snd: "set (map snd (m_msg_map q)) = live q"
  by (simp add: live_def)

lemma distinct_map_snd: "queue_ok q \<Longrightarrow> distinct (map snd (m_msg_map q))"
  by (simp add: queue_ok_def wf_store_def)

lemma monitor_scan_effect:
  assumes "queue_ok q"
  shows "entry (fst (monitor_scan q now)) p =
      (if p \<in> live q then scanned (m_fail_timeout q) (m_max_retries q) (now - milliseconds (m_fail_timeout q))
        (now - milliseconds (m_boost_timeout q)) (entry q p) else entry q p)
    \<and> m_err_cb (fst (monitor_scan q now)) = m_err_cb q"
  unfolding monitor_scan_def
  using monitor_loop_entry[OF assms distinct_map_snd[OF assms],
      of "now - milliseconds (m_fail_timeout q)" "now - milliseconds (m_boost_timeout q)" 0 p]
  unfolding live_map_snd by simp

lemmas monitor_scan_entry = monitor_scan_effect[THEN conjunct1]
  and monitor_scan_err = monitor_scan_effect[THEN conjunct2]

lemma monitor_poll_parts:
  "m_run q \<Longrightarrow> fst (monitor_poll q now) \<and>
     entry (snd (monitor_poll q now)) p = entry (fst (monitor_scan q now)) p \<and>
     m_msg_map (snd (monitor_poll q now)) = m_msg_map (fst (monitor_scan q now)) \<and>
     m_queue_list (snd (monitor_poll q now)) = m_queue_list (fst (monitor_scan q now)) \<and>
     m_err_cb (snd (monitor_poll q now)) = m_err_cb (fst (monitor_scan q now))"
  by (auto simp: monitor_poll_def split: prod.splits)

section \<open>The delay thread, message by message\<close>

lemma release_one_fields [simp]:
  "m_msg_map (release_one q now p) = m_msg_map q"
  "m_capacity (release_one q now p) = m_capacity q"
  "m_msg_pool (release_one q now p) = m_msg_pool q"
  "m_msg_delay (release_one q now p) = tl (m_msg_delay q)"
  "length (m_heap (release_one q now p)) = length (m_heap q)"
  "m_max_retries (release_one q now p) = m_max_retries q"
  by (simp_all add: release_one_def Let_def)

lemma release_due_map [simp]:
  "m_msg_map (release_due q now) = m_msg_map q"
  by (rule release_due_invariant[where I = "\<lambda>s. m_msg_map s = m_msg_map q"]) auto

text \<open>
  All due messages become ready with the time of release; all others keep their entry, and the
  delay set keeps exactly the messages that are not due.
\<close>

lemma release_due_entry:
  "queue_ok q \<Longrightarrow>
     entry (release_due q now) p =
       (if p \<in> set (m_msg_delay q) \<and> state_ts (entry q p) \<le> now then released (entry q p) now
        else entry q p) \<and>
     m_msg_delay (release_due q now) = filter (\<lambda>x. state_ts (entry q x) > now) (m_msg_delay q)"
proof (induction q now rule: release_due.induct)
  case (1 q now)
  show ?case
  proof (cases "m_msg_delay q")
    case Nil
    then show ?thesis by (simp add: release_due_stop)
  next
    case (Cons x ds)
    have srt: "sorted (map (\<lambda>p. state_ts (entry q p)) (x # ds))" and dist: "distinct (x # ds)"
      using wf_sorted_delay[OF 1(2)] wf_delay_distinct[OF 1(2)] by (simp_all add: Cons)
    show ?thesis
    proof (cases "state_ts (entry q x) \<le> now")
      case True
      let ?q = "release_one q now x"
      note rel = release_one_spec(1)[OF 1(2) Cons, of now]
      have e: "entry ?q y = (if y = x then released (entry q x) now else entry q y)" for y
        using wf_live_heap[OF 1(2) release_one_spec(2)[OF 1(2) Cons]] by (simp add: rel entry_set_entry)
      have ds: "m_msg_delay ?q = ds" by (simp add: Cons)
      have "filter (\<lambda>y. state_ts (entry ?q y) > now) ds = filter (\<lambda>y. state_ts (entry q y) > now) ds"
        using dist e by (intro filter_cong) auto
      moreover have "entry (release_due ?q now) p =
          (if p \<in> set ds \<and> state_ts (entry ?q p) \<le> now then released (entry ?q p) now else entry ?q p) \<and>
        m_msg_delay (release_due ?q now) = filter (\<lambda>y. state_ts (entry ?q y) > now) ds"
        using 1 queue_ok_release_one[OF 1(2) Cons] True Cons ds by simp
      ultimately show ?thesis
        using True dist by (auto simp: release_due_step[OF Cons True] Cons e)
    next
      case False
      then have "filter (\<lambda>x. state_ts (entry q x) > now) (x # ds) = x # ds"
        using srt by (auto intro!: filter_True)
      moreover have "\<not> (p \<in> set (x # ds) \<and> state_ts (entry q p) \<le> now)"
        using False srt by auto
      ultimately show ?thesis using False by (auto simp: release_due_stop Cons)
    qed
  qed
qed

section \<open>Retry counters and memory\<close>

text \<open>
  A message is failed exactly when its counter has met the limit; below a positive limit it is
  not. The entries ever allocated never outnumber the capacity.
\<close>

definition retry_ok :: "u64 \<Rightarrow> MsgEntry_t \<Rightarrow> bool" where
  "retry_ok retries e \<longleftrightarrow>
     (if state e = MSG_FAILED then ucast (fail_count e) = retries
      else retries \<noteq> 0 \<longrightarrow> ucast (fail_count e) < retries)"

definition retries_ok :: "Queue \<Rightarrow> bool" where
  "retries_ok q \<longleftrightarrow> (\<forall>p \<in> live q. retry_ok (m_max_retries q) (entry q p))"

definition heap_ok :: "Queue \<Rightarrow> bool" where
  "heap_ok q \<longleftrightarrow> length (m_heap q) \<le> unat (m_capacity q)"

lemma retry_ok_cong:
  "fail_count e' = fail_count e \<Longrightarrow> (state e' = MSG_FAILED) = (state e = MSG_FAILED) \<Longrightarrow>
     retry_ok r e \<Longrightarrow> retry_ok r e'"
  by (simp add: retry_ok_def)

lemma retry_ok_new: "state e \<noteq> MSG_FAILED \<Longrightarrow> fail_count e = 0 \<Longrightarrow> retry_ok r e"
  by (auto simp: retry_ok_def word_gt_0)

lemma unat_ucast_u8: "unat (ucast (x :: u8) :: u64) = unat x"
proof -
  have "unat x < 2 ^ 8" using unsigned_less[of x] by simp
  then have "unat x < 2 ^ 64" by simp
  then show ?thesis by (simp add: unsigned_ucast_eq take_bit_nat_eq_self)
qed

lemma retry_ok_scanned:
  assumes "retry_ok r e"
  shows "retry_ok r (scanned ft r t1 t2 e)"
proof (cases "state e = MSG_RUNNING \<and> ft \<noteq> 0 \<and> state_ts e < t1")
  case False
  with assms show ?thesis by (auto simp: scanned_def retry_ok_def)
next
  case True
  have "ucast (fail_count e + 1) < r" if "r \<noteq> 0" "ucast (fail_count e + 1) \<noteq> r"
  proof -
    have "ucast (fail_count e) < r" using assms True that by (simp add: retry_ok_def)
    moreover have "unat (fail_count e + 1) \<le> unat (fail_count e) + 1"
      by (metis Suc_eq_plus1 add.commute le_SucI order_refl unatSuc unat_eq_zero zero_le)
    ultimately have "unat (ucast (fail_count e + 1) :: u64) \<le> unat r"
      by (simp add: word_less_nat_alt unat_ucast_u8)
    with that(2) show ?thesis by (metis order_le_less word_le_nat_alt)
  qed
  with True show ?thesis by (auto simp: scanned_def retry_ok_def)
qed

text \<open>
  How the operations treat entries: every live entry afterwards is an old one with the same
  counter and the same verdict, or a fresh one with counter zero.
\<close>

definition entries_kept :: "Queue \<Rightarrow> Queue \<Rightarrow> bool" where
  "entries_kept q q' \<longleftrightarrow> m_max_retries q' = m_max_retries q \<and>
     (\<forall>p \<in> live q'.
        p \<in> live q \<and> fail_count (entry q' p) = fail_count (entry q p) \<and>
          (state (entry q' p) = MSG_FAILED) = (state (entry q p) = MSG_FAILED) \<or>
        fail_count (entry q' p) = 0 \<and> state (entry q' p) \<noteq> MSG_FAILED)"

lemma retries_ok_kept: "entries_kept q q' \<Longrightarrow> retries_ok q \<Longrightarrow> retries_ok q'"
  unfolding entries_kept_def retries_ok_def by (metis retry_ok_cong retry_ok_new)

lemma kept_refl [simp]: "entries_kept q q"
  by (simp add: entries_kept_def)

lemma kept_one_entry:
  assumes "p \<in> live q" "m_msg_map q' = m_msg_map q" "m_max_retries q' = m_max_retries q"
    "\<And>x. x \<noteq> p \<Longrightarrow> entry q' x = entry q x"
    "fail_count (entry q' p) = fail_count (entry q p)"
    "(state (entry q' p) = MSG_FAILED) = (state (entry q p) = MSG_FAILED)"
  shows "entries_kept q q'"
  using assms unfolding entries_kept_def live_def by metis

lemma kept_popImpl: "queue_ok q \<Longrightarrow> entries_kept q (snd (popImpl q now rnd))"
proof -
  assume ok: "queue_ok q"
  show ?thesis
  proof (cases "m_count_queued q = 0")
    case True
    then show ?thesis by (simp add: popImpl_def entries_kept_def live_def)
  next
    case False
    from pop_available[OF ok this] obtain p qs where pop: "pop_first (m_queue_list q) = Some (p, qs)" by blast
    note p = pop_first_live[OF ok pop]
    show ?thesis
      by (rule kept_one_entry[OF p(1)])
        (use p(2) wf_live_heap[OF ok p(1)] in \<open>simp_all add: popImpl_nonempty[OF pop False] entry_set_entry\<close>)
  qed
qed

lemma insertDelayedMsg_params [simp]:
  "m_max_retries (insertDelayedMsg q p ts) = m_max_retries q"
  "m_max_retries (enqueue_front p i q) = m_max_retries q"
  by (simp_all add: insertDelayedMsg_def enqueue_front_def Let_def)

lemma kept_ackImpl:
  assumes ok: "queue_ok q"
  shows "entries_kept q (snd (ackImpl q i tok rq d now))"
proof (cases rule: ackImpl_cases[of q i tok rq d now])
  case (removed p)
  then show ?thesis
    by (auto simp: entries_kept_def live_def map_erase_def)
next
  case (requeue p)
  note p = find_live[OF ok requeue(1)]
  show ?thesis
    by (rule kept_one_entry[OF p])
      (use requeue(3) wf_live_heap[OF ok p] in \<open>simp_all add: requeue(6) entry_set_entry\<close>)
next
  case (requeue_later p)
  note p = find_live[OF ok requeue_later(1)]
  have lt: "p < length (m_heap q)" using wf_live_heap[OF ok p] .
  show ?thesis
    by (rule kept_one_entry[OF p])
      (use requeue_later(3) lt in \<open>simp_all add: requeue_later(6) entry_insertDelayedMsg entry_set_entry\<close>)
qed simp_all

lemma kept_push:
  assumes ok: "queue_ok q"
  shows "entries_kept q (snd (push q i pr d now now'))"
proof (cases "fst (push q i pr d now now') = Return ()")
  case False
  then show ?thesis using push_rejected[OF False] by auto
next
  case True
  obtain p h l where P: "map_find (m_msg_map q) i = None" "p \<notin> live q" "p < length h"
      "h ! p = MsgEntry_new i pr now" "\<And>x. x \<in> live q \<Longrightarrow> h ! x = m_heap q ! x"
    and res: "push q i pr d now now' = (Return (),
       (let q2 = q\<lparr> m_heap := h, m_msg_pool := l, m_msg_map := map_put i p (m_msg_map q) \<rparr>
        in if d \<noteq> 0 then insertDelayedMsg q2 p (now' + milliseconds d) else enqueue_front p pr q2))"
    using push_accepted[OF ok True] by metis
  let ?q2 = "q\<lparr> m_heap := h, m_msg_pool := l, m_msg_map := map_put i p (m_msg_map q) \<rparr>"
  have live: "live (q\<lparr> m_msg_map := map_put i p (m_msg_map q) \<rparr>) = insert p (live q)"
    using smap.set_entries_put[OF wf_map_ok[OF ok] P(1)] by (simp add: live_def)
  show ?thesis
  proof (cases "d = 0")
    case True
    have "entries_kept q (enqueue_front p pr ?q2)"
      using P live by (auto simp: entries_kept_def live_def entry_def MsgEntry_new_def)
    with True res show ?thesis by simp
  next
    case False
    have "entries_kept q (insertDelayedMsg ?q2 p (now' + milliseconds d))"
      using P live
      by (auto simp: entries_kept_def live_def entry_def nth_list_update MsgEntry_new_def)
    with False res show ?thesis by simp
  qed
qed

lemma kept_trans: "entries_kept q q1 \<Longrightarrow> entries_kept q1 q2 \<Longrightarrow> entries_kept q q2"
  unfolding entries_kept_def by metis

lemma kept_popAck:
  assumes ok: "queue_ok q"
  shows "entries_kept q (snd (popAck q i tok rq d now now' rnd))"
proof (cases rule: popAck_cases[of q i tok rq d now now' rnd])
  case (acked q1)
  have "entries_kept q q1" "queue_ok q1"
    using kept_ackImpl[OF ok, of i tok rq d now] queue_ok_ackImpl[OF ok, of i tok rq d now] acked(1) by simp_all
  then show ?thesis using kept_popImpl[of q1 now' rnd] kept_trans acked(2) by metis
qed simp

lemma kept_erase: "entries_kept q (snd (eraseFailed q is))"
proof -
  have "entries_kept q (snd (erase_loop is f q))" for f
  proof (induction "is" f q rule: erase_loop.induct)
    case (2 i "is" f q)
    have "entries_kept q (q\<lparr> m_msg_pool := a, m_msg_map := map_erase i (m_msg_map q) \<rparr>)" for a
      by (auto simp: entries_kept_def live_def map_erase_def)
    with 2 show ?case by (auto split: option.split intro: kept_trans)
  qed simp
  from this[of "[]"] show ?thesis
    by (simp add: eraseFailed_corrected corrected_def entries_kept_def live_def)
qed

lemma retries_ok_monitor: "queue_ok q \<Longrightarrow> retries_ok q \<Longrightarrow> retries_ok (snd (monitor_poll q now))"
proof (cases "m_run q")
  case True
  assume ok: "queue_ok q" and r: "retries_ok q"
  have m: "m_max_retries (snd (monitor_poll q now)) = m_max_retries q"
  proof -
    have "m_max_retries (fst (foldl (monitor_msg ft bt) s ps)) = m_max_retries (fst s)" for ft bt s ps
      by (induction ps arbitrary: s) simp_all
    then show ?thesis by (auto simp: monitor_poll_def monitor_scan_def split: prod.splits) (metis fst_conv)+
  qed
  have "live (snd (monitor_poll q now)) = live q"
    using monitor_poll_parts[OF True] monitor_scan_ok[OF ok] by (simp add: live_def)
  then show ?thesis
    using r monitor_scan_entry[OF ok] monitor_poll_parts[OF True]
    by (auto simp: retries_ok_def m retry_ok_scanned)
qed (simp add: monitor_poll_def)

lemma kept_release: "queue_ok q \<Longrightarrow> entries_kept q (release_due q now)"
proof -
  assume ok: "queue_ok q"
  have "m_max_retries (release_due q now) = m_max_retries q"
    by (rule release_due_invariant[where I = "\<lambda>s. m_max_retries s = m_max_retries q"]) auto
  then show ?thesis
    using release_due_entry[OF ok] wf_delay[OF ok]
    by (auto simp: entries_kept_def live_def with_state_def)
qed

lemma queue_step_retries:
  "queue_step q ev q' \<Longrightarrow> queue_ok q \<Longrightarrow> retries_ok q \<Longrightarrow> retries_ok q'"
proof (induction rule: queue_step.induct)
  case (step_push q i pr d now now' r q')
  then show ?case using kept_push[of q i pr d now now'] retries_ok_kept by simp
next
  case (step_pop q now rnd r q')
  then show ?case using kept_popImpl[of q now rnd] retries_ok_kept by (simp add: pop_def)
next
  case (step_resume q now rnd r q')
  let ?q = "q\<lparr> m_pop_cv := cv_resume (m_pop_cv q) \<rparr>"
  have "retries_ok ?q" using step_resume by (simp add: retries_ok_def live_def)
  then show ?case
    using step_resume kept_popImpl[of ?q now rnd] retries_ok_kept[of ?q] by (simp add: pop_resume_def)
next
  case (step_spurious q)
  then show ?case by (simp add: retries_ok_def live_def)
next
  case (step_ack q i tok rq d now r q')
  then show ?case using kept_ackImpl[of q i tok rq d now] retries_ok_kept by (simp add: ack_def)
next
  case (step_pop_ack q i tok rq d now now' rnd r q')
  then show ?case using kept_popAck[of q i tok rq d now now' rnd] retries_ok_kept by simp
next
  case (step_erase q "is" ids q')
  then show ?case using kept_erase[of q "is"] retries_ok_kept by simp
next
  case (step_monitor q now q')
  then show ?case using retries_ok_monitor[of q now] by simp
next
  case (step_delay q now q')
  then show ?case using kept_release[of q now] retries_ok_kept by (auto simp: delay_poll_def split: if_splits)
qed

text \<open>What no operation changes: the parameters, the number of deques, the run flag.\<close>

definition same_params :: "Queue \<Rightarrow> Queue \<Rightarrow> bool" where
  "same_params q q' \<longleftrightarrow>
     m_capacity q' = m_capacity q \<and> m_fail_timeout q' = m_fail_timeout q \<and>
     m_max_retries q' = m_max_retries q \<and> m_boost_timeout q' = m_boost_timeout q \<and>
     m_run q' = m_run q \<and> length (m_queue_list q') = length (m_queue_list q)"

definition same_frame :: "Queue \<Rightarrow> Queue \<Rightarrow> bool" where
  "same_frame q q' \<longleftrightarrow> same_params q q' \<and> length (m_heap q') = length (m_heap q)"

lemma same_frame_refl [simp]: "same_frame q q"
  by (simp add: same_frame_def same_params_def)

lemma same_frame_trans: "same_frame q q1 \<Longrightarrow> same_frame q1 q2 \<Longrightarrow> same_frame q q2"
  by (simp add: same_frame_def same_params_def)

lemma same_frame_popImpl: "same_frame q (snd (popImpl q now rnd))"
  by (auto simp: popImpl_def same_frame_def same_params_def Let_def dest: pop_first_length
      split: option.splits)

lemma same_frame_queueing [simp]:
  "same_frame q (insertDelayedMsg q p ts)"
  "same_frame q (enqueue_front p i q)"
  "same_frame q (insertDelayedMsg (set_entry p e q) p ts)"
  "same_frame q (enqueue_front p i (set_entry p e q))"
  by (simp_all add: same_frame_def same_params_def insertDelayedMsg_def enqueue_front_def Let_def)

lemma same_frame_ackImpl: "same_frame q (snd (ackImpl q i tok rq d now))"
proof (cases rule: ackImpl_cases[of q i tok rq d now])
  case (removed p)
  then show ?thesis by (simp add: same_frame_def same_params_def)
qed auto

lemma same_frame_popAck: "same_frame q (snd (popAck q i tok rq d now now' rnd))"
proof (cases rule: popAck_cases[of q i tok rq d now now' rnd])
  case (acked q1)
  then show ?thesis
    using same_frame_ackImpl[of q i tok rq d now] same_frame_popImpl[of q1 now' rnd]
    by (auto intro: same_frame_trans)
qed simp

lemma same_frame_erase: "same_frame q (snd (eraseFailed q is))"
proof -
  have "same_frame q (snd (erase_loop is f q))" for f
  proof (induction "is" f q rule: erase_loop.induct)
    case (2 i "is" f q)
    have upd: "same_frame q (q\<lparr> m_msg_pool := a, m_msg_map := b \<rparr>)" for a b
      by (simp add: same_frame_def same_params_def)
    from 2 show ?case by (auto split: option.split intro: same_frame_trans[OF upd])
  qed simp
  from this[of "[]"] show ?thesis
    by (simp add: eraseFailed_corrected corrected_def same_frame_def same_params_def)
qed

lemma same_frame_monitor: "same_frame q (snd (monitor_poll q now))"
proof -
  have one: "same_frame (fst s) (fst (monitor_msg ft bt s p))" for ft bt s p
    by (cases s) (simp add: monitor_msg_def Let_def call_err_cb_def same_frame_def same_params_def)
  have "same_frame (fst s) (fst (foldl (monitor_msg ft bt) s ps))" for ft bt s ps
    by (induction ps arbitrary: s) (simp, metis foldl_Cons one same_frame_trans)
  from this[of "(q, 0)"] have "same_frame q (fst (monitor_scan q now))" by (simp add: monitor_scan_def)
  then show ?thesis
    by (auto simp: monitor_poll_def same_frame_def same_params_def split: prod.splits)
qed

lemma same_frame_release: "same_frame q (release_due q now)"
  by (rule release_due_invariant[where I = "same_frame q"])
    (auto simp: release_one_def Let_def same_frame_def same_params_def)

lemma getMsgEntry_heap:
  "length (m_heap (snd (getMsgEntry q i pr now))) =
     (if m_msg_pool q = [] then length (m_heap q) + 1 else length (m_heap q))"
  "same_params q (snd (getMsgEntry q i pr now))"
  by (simp_all add: getMsgEntry_def Let_def same_params_def)

lemma push_frame:
  "same_params q (snd (push q i pr d now now'))"
  using getMsgEntry_heap(2)[of q i pr now]
  by (auto simp: push_def Let_def same_params_def insertDelayedMsg_def enqueue_front_def split: prod.splits)

lemma push_heap:
  assumes "fst (push q i pr d now now') = Return ()"
  shows "length (m_heap (snd (push q i pr d now now'))) = length (m_heap (snd (getMsgEntry q i pr now)))"
  using assms
  by (auto simp: push_def Let_def insertDelayedMsg_def enqueue_front_def split: prod.splits if_splits)

lemma heap_size: "queue_ok q \<Longrightarrow> m_msg_pool q = [] \<Longrightarrow> length (m_heap q) = length (m_msg_map q)"
proof -
  assume "queue_ok q" "m_msg_pool q = []"
  then have "live q = {..<length (m_heap q)}" by (simp add: queue_ok_def wf_store_def)
  with card_live[OF \<open>queue_ok q\<close>] show ?thesis by simp
qed

lemma heap_ok_push:
  assumes ok: "queue_ok q" and h: "heap_ok q"
  shows "heap_ok (snd (push q i pr d now now'))"
proof (cases "fst (push q i pr d now now') = Return ()")
  case False
  then show ?thesis using h push_rejected[OF False] by auto
next
  case True
  then obtain "length (m_msg_map q) < unat (m_capacity q)" using push_accepted[OF ok] by metis
  then show ?thesis
    using push_heap[OF True] h heap_size[OF ok] getMsgEntry_heap(1)[of q i pr now]
      push_frame[of q i pr d now now']
    by (auto simp: heap_ok_def same_params_def split: if_splits)
qed

lemma heap_ok_frame: "same_frame q q' \<Longrightarrow> heap_ok q \<Longrightarrow> heap_ok q'"
  by (simp add: heap_ok_def same_frame_def same_params_def)

lemma queue_step_frame:
  "queue_step q ev q' \<Longrightarrow> same_params q q' \<and> ((\<exists>i pr d now now' r. ev = Push i pr d now now' r) \<or> same_frame q q')"
proof (induction rule: queue_step.induct)
  case (step_push q i pr d now now' r q')
  then show ?case using push_frame[of q i pr d now now'] by simp
next
  case (step_pop q now rnd r q')
  then show ?case using same_frame_popImpl[of q now rnd] by (simp add: pop_def same_frame_def)
next
  case (step_resume q now rnd r q')
  then show ?case
    using same_frame_popImpl[of "q\<lparr> m_pop_cv := cv_resume (m_pop_cv q) \<rparr>" now rnd]
    by (simp add: pop_resume_def same_frame_def same_params_def)
next
  case (step_spurious q)
  then show ?case by (simp add: same_frame_def same_params_def)
next
  case (step_ack q i tok rq d now r q')
  then show ?case using same_frame_ackImpl[of q i tok rq d now] by (simp add: ack_def same_frame_def)
next
  case (step_pop_ack q i tok rq d now now' rnd r q')
  then show ?case using same_frame_popAck[of q i tok rq d now now' rnd] by (simp add: same_frame_def)
next
  case (step_erase q "is" ids q')
  then show ?case using same_frame_erase[of q "is"] by (simp add: same_frame_def)
next
  case (step_monitor q now q')
  then show ?case using same_frame_monitor[of q now] by (simp add: same_frame_def)
next
  case (step_delay q now q')
  then show ?case using same_frame_release[of q now] by (auto simp: same_frame_def delay_poll_def split: if_splits)
qed

lemma queue_step_heap: "queue_step q ev q' \<Longrightarrow> queue_ok q \<Longrightarrow> heap_ok q \<Longrightarrow> heap_ok q'"
proof -
  assume s: "queue_step q ev q'" and ok: "queue_ok q" and h: "heap_ok q"
  show "heap_ok q'"
  proof (cases "same_frame q q'")
    case True
    then show ?thesis using h heap_ok_frame by blast
  next
    case False
    then obtain i pr d now now' r where "ev = Push i pr d now now' r" using queue_step_frame[OF s] by blast
    then have "push q i pr d now now' = (r, q')" using s by (auto elim: queue_stepE)
    then show ?thesis using heap_ok_push[OF ok h, of i pr d now now'] by simp
  qed
qed

definition counters_ok :: "Queue \<Rightarrow> bool" where
  "counters_ok q \<longleftrightarrow> queue_ok q \<and> retries_ok q \<and> heap_ok q \<and> m_run q"

interpretation queue_counters: inductive_invariant queue_init queue_step counters_ok
proof
  show "counters_ok q" if "queue_init q" for q
    using that queue_sys.init_inv[OF that]
    by (auto simp: queue_init_def counters_ok_def retries_ok_def heap_ok_def live_def Queue_create_def)
  show "counters_ok t" if "counters_ok s" "queue_step s l t" for s l t
    using that queue_step_ok queue_step_retries queue_step_heap queue_step_frame
    by (auto simp: counters_ok_def same_params_def)
qed

section \<open>Where the monitor puts a message\<close>

text \<open>The scan never takes a message other than the one it looks at out of a deque.\<close>

lemma monitor_msg_keeps:
  assumes ok: "queue_ok q" and m: "m \<in> live q" and "m \<noteq> p"
    and j: "j < length (m_queue_list q)" and "p \<in> set (m_queue_list q ! j)"
  shows "p \<in> set (m_queue_list (fst (monitor_msg ft bt (q, n) m)) ! j)"
  using ok m
  by (cases rule: monitor_msg_cases[where ft = ft and bt = bt and n = n])
    (use assms in \<open>auto simp: nth_push\<close>)

lemma monitor_loop_keeps:
  assumes "queue_ok q" and "set ps \<subseteq> live q" and "p \<notin> set ps"
    and "j < length (m_queue_list q)" and "p \<in> set (m_queue_list q ! j)"
  shows "p \<in> set (m_queue_list (fst (foldl (monitor_msg ft bt) (q, n) ps)) ! j)"
  using assms
proof (induction ps arbitrary: q n)
  case (Cons m ps)
  let ?s = "monitor_msg ft bt (q, n) m"
  have m: "m \<in> live q" "m \<noteq> p" using Cons.prems(2,3) by auto
  have "queue_ok (fst ?s)" using queue_ok_monitor_msg[OF Cons.prems(1) m(1)] .
  moreover have "live (fst ?s) = live q" by (simp add: live_def)
  ultimately show ?case
    using Cons.IH[of "fst ?s" "snd ?s"] monitor_msg_keeps[OF Cons.prems(1) m Cons.prems(4,5)] Cons.prems(2-4)
    by simp
qed simp

text \<open>The deque in which the scan leaves a message that it queued or boosted.\<close>

definition scan_target :: "u64 \<Rightarrow> u64 \<Rightarrow> timestamp \<Rightarrow> timestamp \<Rightarrow> MsgEntry_t \<Rightarrow> nat option" where
  "scan_target ack_timeout retries ft bt e =
     (if state e = MSG_RUNNING \<and> ack_timeout \<noteq> 0 \<and> state_ts e < ft then
        (if ucast (fail_count e + 1) = retries then None else Some (unat (priority e)))
      else if state e = MSG_QUEUED \<and> priority e > 0 \<and> \<not> boosted e \<and> state_ts e < bt then Some 0
      else None)"

lemma monitor_msg_target:
  assumes ok: "queue_ok q" and p: "p \<in> live q"
    and target: "scan_target (m_fail_timeout q) (m_max_retries q) ft bt (entry q p) = Some j"
  shows "j < length (m_queue_list q) \<and> p \<in> set (m_queue_list (fst (monitor_msg ft bt (q, n) p)) ! j)"
proof -
  have pr: "unat (priority (entry q p)) < length (m_queue_list q)" using wf_priority[OF ok p] .
  then have pos: "m_queue_list q \<noteq> []" by auto
  have own: "state (entry q p) = MSG_QUEUED \<Longrightarrow> \<not> boosted (entry q p) \<Longrightarrow>
      p \<in> set (m_queue_list q ! unat (priority (entry q p)))" using own_queue[OF ok p] .
  show ?thesis
    using target pr pos own
    by (auto simp: scan_target_def monitor_msg_def Let_def split: if_splits)
qed

lemma monitor_loop_target:
  assumes "queue_ok q" and "distinct ps" and "set ps \<subseteq> live q" and "p \<in> set ps"
    and "scan_target (m_fail_timeout q) (m_max_retries q) ft bt (entry q p) = Some j"
  shows "j < length (m_queue_list q) \<and>
    p \<in> set (m_queue_list (fst (foldl (monitor_msg ft bt) (q, n) ps)) ! j)"
  using assms
proof (induction ps arbitrary: q n)
  case (Cons m ps)
  let ?s = "monitor_msg ft bt (q, n) m"
  have m: "m \<in> live q" using Cons.prems(3) by simp
  have ok: "queue_ok (fst ?s)" using queue_ok_monitor_msg[OF Cons.prems(1) m] .
  have lv: "live (fst ?s) = live q" by (simp add: live_def)
  show ?case
  proof (cases "m = p")
    case True
    then have "j < length (m_queue_list q) \<and> p \<in> set (m_queue_list (fst ?s) ! j)"
      using monitor_msg_target[OF Cons.prems(1) m] Cons.prems(5) by simp
    then show ?thesis
      using monitor_loop_keeps[OF ok, of ps p j ft bt "snd ?s"] Cons.prems(2,3) True lv by simp
  next
    case False
    then show ?thesis
      using Cons.IH[OF ok, of "snd ?s"] Cons.prems monitor_msg_entry[OF Cons.prems(1) m, of ft bt n p] lv by simp
  qed
qed simp

lemma monitor_scan_target:
  assumes "queue_ok q" and "p \<in> live q"
    and "scan_target (m_fail_timeout q) (m_max_retries q) (now - milliseconds (m_fail_timeout q))
      (now - milliseconds (m_boost_timeout q)) (entry q p) = Some j"
  shows "p \<in> set (m_queue_list (fst (monitor_scan q now)) ! j)"
  using monitor_loop_target[OF assms(1) distinct_map_snd[OF assms(1)] _ _ assms(3)] assms(2)
  unfolding monitor_scan_def live_map_snd by blast

end
