(* ===== verification/Queue_Service.thy ===== *)
theory Queue_Service
  imports Queue_Effects
begin

text \<open>
  The order in which consumers receive messages. The deques, read from back to front, are
  lanes: \<open>pop\<close> serves the first message of the first lane that has one, \<open>push\<close> adds at the
  end of a lane, and the delay thread puts due messages at the head of theirs.
\<close>

section \<open>Reachable queues\<close>

abbreviation reachable_queue :: "Queue \<Rightarrow> bool" where
  "reachable_queue q \<equiv> reachable queue_init queue_step q"

lemmas reachable_ok = queue_sys.reachable_inv
lemmas reachable_wakeup = queue_wakeup.reachable_inv
lemmas reachable_counters = queue_counters.reachable_inv

lemma reachable_create: "reachable_queue (Queue_create np cap ft mr bt mp cb)"
  by (rule reachable.start) (unfold queue_init_def, blast)

lemma reachable_step: "reachable_queue q \<Longrightarrow> queue_step q ev q' \<Longrightarrow> reachable_queue q'"
  by (rule reachable.step)

lemma reachable_push: "reachable_queue q \<Longrightarrow> reachable_queue (snd (push q i pr d now now'))"
  by (erule reachable_step, rule step_push[of _ _ _ _ _ _ "fst (push q i pr d now now')"]) simp

lemma reachable_pop: "reachable_queue q \<Longrightarrow> reachable_queue (snd (pop q now rnd))"
  by (erule reachable_step, rule step_pop[of _ _ _ "fst (pop q now rnd)"]) simp

lemma reachable_ack: "reachable_queue q \<Longrightarrow> reachable_queue (snd (ack q i tok rq d now))"
  by (erule reachable_step, rule step_ack[of _ _ _ _ _ _ "fst (ack q i tok rq d now)"]) simp

lemma reachable_run: "reachable_queue q \<Longrightarrow> m_run q"
  using reachable_counters by (simp add: counters_ok_def)

lemma reachable_monitor: "reachable_queue q \<Longrightarrow> reachable_queue (snd (monitor_poll q now))"
  by (frule reachable_run, erule reachable_step, rule step_monitor[of _ now])
    (auto simp: monitor_poll_def split: prod.splits)

lemma reachable_delay: "reachable_queue q \<Longrightarrow> reachable_queue (snd (delay_poll q now))"
  by (frule reachable_run, erule reachable_step, rule step_delay[of _ now])
    (auto simp: delay_poll_def)

section \<open>Places of a message\<close>

lemma count_list_mset: "count_list xs x = count (mset xs) x"
  by (induction xs) auto

lemma queued_once:
  "queue_ok q \<Longrightarrow> p \<in> live q \<Longrightarrow>
     count_list (concat (m_queue_list q)) p = of_bool (state (entry q p) = MSG_QUEUED) \<and>
     count_list (m_msg_delay q) p = of_bool (state (entry q p) = MSG_DELAYED) \<and>
     p \<notin> set (m_msg_pool q)"
  by (auto simp: queue_ok_def wf_sched_def wf_store_def count_list_mset with_state_def live_def)

lemma no_queued: "queue_ok q \<Longrightarrow> m_count_queued q = 0 \<longleftrightarrow> with_state q MSG_QUEUED = {}"
  by (metis card_eq_0_iff finite_with_state unat_count_queued unat_eq_zero)

lemma queued_empty: "queue_ok q \<Longrightarrow> m_count_queued q = 0 \<longleftrightarrow> concat (m_queue_list q) = []"
  using no_queued wf_queues by (metis set_empty2)

section \<open>Lanes\<close>

definition id_of :: "Queue \<Rightarrow> ptr \<Rightarrow> string" where
  "id_of q p = msg_id (message (entry q p))"

definition lane_ids :: "Queue \<Rightarrow> string list list" where
  "lane_ids q = map (\<lambda>l. map (id_of q) (rev l)) (m_queue_list q)"

lemma length_lane_ids [simp]: "length (lane_ids q) = length (m_queue_list q)"
  by (simp add: lane_ids_def)

lemma concat_lane_ids: "concat (lane_ids q) = map (id_of q) (concat (map rev (m_queue_list q)))"
  by (simp add: lane_ids_def map_concat o_def)

lemma lane_ids_empty: "queue_ok q \<Longrightarrow> m_count_queued q = 0 \<longleftrightarrow> concat (lane_ids q) = []"
  by (auto simp: queued_empty concat_lane_ids)

text \<open>Identifiers of the queued messages determine the lanes.\<close>

lemma lane_ids_cong:
  assumes "m_queue_list q' = m_queue_list q" and "\<And>p. p \<in> set (concat (m_queue_list q)) \<Longrightarrow> id_of q' p = id_of q p"
  shows "lane_ids q' = lane_ids q"
  using assms by (auto simp: lane_ids_def)

text \<open>Consumers calling \<open>pop\<close> one after the other, until one has to wait.\<close>

fun pops :: "(timestamp \<times> u64) list \<Rightarrow> Queue \<Rightarrow> string list" where
  "pops [] q = []"
| "pops ((now, rnd) # es) q =
     (case pop q now rnd of
        (Return p, q') \<Rightarrow> msg_id (message (entry q' p)) # pops es q'
      | _ \<Rightarrow> [])"

lemma pop_lane:
  assumes ok: "queue_ok q" and pop: "popImpl q now rnd = (Return p, q')"
  shows "concat (lane_ids q) = msg_id (message (entry q' p)) # concat (lane_ids q')"
proof -
  have ne: "m_count_queued q \<noteq> 0" using pop by (auto simp: popImpl_def)
  from pop_available[OF ok this] obtain p' qs where pf: "pop_first (m_queue_list q) = Some (p', qs)" by blast
  note q' = popImpl_nonempty[OF pf ne, of now rnd]
  have [simp]: "p' = p" using pop q' by simp
  have lt: "p < length (m_heap q)" using wf_live_heap[OF ok] pop_first_live(1)[OF ok pf] by simp
  have ids: "id_of q' x = id_of q x" for x
    using pop q' lt by (auto simp: entry_set_entry id_of_def)
  have ql: "m_queue_list q' = qs" using pop q' by auto
  have "concat (map rev (m_queue_list q)) = p # concat (map rev qs)" using deques.tk_Some[OF pf] by simp
  then have "map (id_of q) (concat (map rev (m_queue_list q))) = id_of q' p # map (id_of q') (concat (map rev qs))"
    by (simp add: ids)
  then show ?thesis unfolding concat_lane_ids ql by (simp add: id_of_def)
qed

lemma pop_nonempty:
  assumes "queue_ok q" and "m_count_queued q \<noteq> 0"
  obtains p q' where "popImpl q now rnd = (Return p, q')"
  using pop_available[OF assms] popImpl_nonempty[OF _ assms(2)] by metis

lemma pops_lanes: "queue_ok q \<Longrightarrow> pops es q = take (length es) (concat (lane_ids q))"
proof (induction es arbitrary: q)
  case (Cons e es)
  obtain now rnd where e: "e = (now, rnd)" by (cases e) auto
  show ?case
  proof (cases "m_count_queued q = 0")
    case True
    then have "concat (lane_ids q) = []" using lane_ids_empty[OF Cons.prems] by simp
    with True show ?thesis by (simp add: e pop_def popImpl_def)
  next
    case False
    then obtain p q' where q': "popImpl q now rnd = (Return p, q')" using pop_nonempty[OF Cons.prems] by blast
    have "queue_ok q'" using queue_ok_popImpl[OF Cons.prems, of now rnd] q' by simp
    with Cons.IH pop_lane[OF Cons.prems q'] show ?thesis by (simp add: e pop_def q')
  qed
qed simp

text \<open>A queue with fresh or released messages: what a push does to the lanes.\<close>

lemma queued_live: "queue_ok q \<Longrightarrow> p \<in> set (concat (m_queue_list q)) \<Longrightarrow> p \<in> live q"
  using wf_queues by (auto simp: with_state_def)

lemma push_lane:
  assumes ok: "queue_ok q" and acc: "fst (push q i pr 0 now now') = Return ()"
  shows "lane_ids (snd (push q i pr 0 now now')) = (lane_ids q)[unat pr := lane_ids q ! unat pr @ [i]]"
proof -
  obtain p h l where P: "unat pr < length (m_queue_list q)" "p \<notin> live q" "p < length h"
      "h ! p = MsgEntry_new i pr now" "\<And>x. x \<in> live q \<Longrightarrow> h ! x = m_heap q ! x"
    and res': "push q i pr 0 now now' = (Return (),
       (let q2 = q\<lparr> m_heap := h, m_msg_pool := l, m_msg_map := map_put i p (m_msg_map q) \<rparr>
        in if 0 \<noteq> (0 :: u64) then insertDelayedMsg q2 p (now' + milliseconds 0) else enqueue_front p pr q2))"
    using push_accepted[OF ok acc] by metis
  then have res: "push q i pr 0 now now' = (Return (), enqueue_front p pr
        (q\<lparr> m_heap := h, m_msg_pool := l, m_msg_map := map_put i p (m_msg_map q) \<rparr>))"
    by (simp add: Let_def)
  let ?q = "snd (push q i pr 0 now now')"
  have new: "id_of ?q p = i" using P(4) by (simp add: res id_of_def entry_def MsgEntry_new_def)
  have old: "id_of ?q x = id_of q x" if "x \<in> set (m_queue_list q ! j)" "j < length (m_queue_list q)" for x j
    using P(5)[of x] in_queue_state[OF ok that(2,1)] by (simp add: res id_of_def entry_def)
  have len: "length (m_queue_list ?q) = length (m_queue_list q)" by (simp add: res)
  have old_lane: "map (id_of ?q) (rev (m_queue_list q ! j)) = map (id_of q) (rev (m_queue_list q ! j))"
    if "j < length (m_queue_list q)" for j
    using old that by simp
  show ?thesis
  proof (rule nth_equalityI)
    fix j assume "j < length (lane_ids ?q)"
    then have j: "j < length (m_queue_list q)" by (simp add: len)
    then have "lane_ids ?q ! j = map (id_of ?q) (rev (m_queue_list q ! j)) @ (if j = unat pr then [i] else [])"
      using P(1) new by (simp add: lane_ids_def res nth_push)
    also have "\<dots> = (lane_ids q)[unat pr := lane_ids q ! unat pr @ [i]] ! j"
      unfolding old_lane[OF j] using j by (simp add: lane_ids_def nth_list_update)
    finally show "lane_ids ?q ! j = (lane_ids q)[unat pr := lane_ids q ! unat pr @ [i]] ! j" .
  qed (simp add: len)
qed

text \<open>
  A publisher pushing messages of one priority, without delay, one after the other; \<open>clock\<close>
  gives the two readings of the clock in the n-th push.
\<close>

fun pushes :: "u8 \<Rightarrow> (nat \<Rightarrow> timestamp \<times> timestamp) \<Rightarrow> nat \<Rightarrow> string list \<Rightarrow> Queue \<Rightarrow> Queue" where
  "pushes pr clock n [] q = q"
| "pushes pr clock n (i # is) q =
     pushes pr clock (n + 1) is (snd (push q i pr 0 (fst (clock n)) (snd (clock n))))"

text \<open>Enough room: every one of the pushes is accepted.\<close>

fun all_accepted :: "u8 \<Rightarrow> (nat \<Rightarrow> timestamp \<times> timestamp) \<Rightarrow> nat \<Rightarrow> string list \<Rightarrow> Queue \<Rightarrow> bool" where
  "all_accepted pr clock n [] q = True"
| "all_accepted pr clock n (i # is) q =
     (fst (push q i pr 0 (fst (clock n)) (snd (clock n))) = Return () \<and>
      all_accepted pr clock (n + 1) is (snd (push q i pr 0 (fst (clock n)) (snd (clock n)))))"

lemma push_accept_iff:
  assumes ok: "queue_ok q"
  shows "fst (push q i pr d now now') = Return () \<longleftrightarrow>
    unat pr < length (m_queue_list q) \<and> map_find (m_msg_map q) i = None \<and>
    length (m_msg_map q) < unat (m_capacity q)"
proof -
  have "word_of_nat (length (m_msg_map q)) = m_capacity q \<longleftrightarrow> length (m_msg_map q) = unat (m_capacity q)"
    using unat_of_nat_le[OF wf_size[OF ok]] by (metis word_unat_eq_iff)
  then show ?thesis
    using wf_size[OF ok] by (auto simp: push_def Let_def split: prod.splits)
qed

lemma push_map:
  assumes "queue_ok q" and "fst (push q i pr d now now') = Return ()"
  obtains p where "m_msg_map (snd (push q i pr d now now')) = map_put i p (m_msg_map q)"
    "m_capacity (snd (push q i pr d now now')) = m_capacity q"
    "length (m_queue_list (snd (push q i pr d now now'))) = length (m_queue_list q)"
proof -
  obtain p h l where "push q i pr d now now' = (Return (),
       (let q2 = q\<lparr> m_heap := h, m_msg_pool := l, m_msg_map := map_put i p (m_msg_map q) \<rparr>
        in if d \<noteq> 0 then insertDelayedMsg q2 p (now' + milliseconds d) else enqueue_front p pr q2))"
    using push_accepted[OF assms] by metis
  then show thesis using that[of p] by (auto simp: Let_def)
qed

lemma all_acceptedI:
  "queue_ok q \<Longrightarrow> unat pr < length (m_queue_list q) \<Longrightarrow> distinct is \<Longrightarrow>
     (\<forall>i \<in> set is. map_find (m_msg_map q) i = None) \<Longrightarrow>
     length (m_msg_map q) + length is \<le> unat (m_capacity q) \<Longrightarrow> all_accepted pr clock n is q"
proof (induction "is" arbitrary: q n)
  case (Cons i "is")
  have acc: "fst (push q i pr 0 (fst (clock n)) (snd (clock n))) = Return ()"
    using Cons.prems by (simp add: push_accept_iff)
  let ?q = "snd (push q i pr 0 (fst (clock n)) (snd (clock n)))"
  obtain p where m: "m_msg_map ?q = map_put i p (m_msg_map q)" "m_capacity ?q = m_capacity q"
      "length (m_queue_list ?q) = length (m_queue_list q)"
    using push_map[OF Cons.prems(1) acc] by blast
  note mok = wf_map_ok[OF Cons.prems(1)]
  have "queue_ok ?q" using queue_ok_push[OF Cons.prems(1)] by blast
  moreover have "\<forall>j \<in> set is. map_find (m_msg_map ?q) j = None"
    using Cons.prems(3,4) by (auto simp: m smap.find_put[OF mok])
  moreover have "length (m_msg_map ?q) + length is \<le> unat (m_capacity ?q)"
    using Cons.prems(4,5) smap.size_put[OF mok, of i p] by (simp add: m)
  ultimately have "all_accepted pr clock (n + 1) is ?q"
    using Cons.prems(2,3) m(3) by (intro Cons.IH) auto
  with acc show ?case by simp
qed simp

lemma pushes_lanes:
  "queue_ok q \<Longrightarrow> all_accepted pr clock n is q \<Longrightarrow>
     lane_ids (pushes pr clock n is q) = (lane_ids q)[unat pr := lane_ids q ! unat pr @ is]"
proof (induction "is" arbitrary: q n)
  case (Cons i "is")
  let ?q = "snd (push q i pr 0 (fst (clock n)) (snd (clock n)))"
  have acc: "fst (push q i pr 0 (fst (clock n)) (snd (clock n))) = Return ()" and rest: "all_accepted pr clock (n + 1) is ?q"
    using Cons.prems(2) by simp_all
  have pr: "unat pr < length (m_queue_list q)" using acc push_accept_iff[OF Cons.prems(1)] by blast
  have "queue_ok ?q" using queue_ok_push[OF Cons.prems(1)] by blast
  with Cons.IH rest push_lane[OF Cons.prems(1) acc] pr show ?case by simp
qed simp

lemma queue_ok_pushes: "queue_ok q \<Longrightarrow> queue_ok (pushes pr clock n is q)"
  by (induction pr clock n "is" q rule: pushes.induct) (simp_all add: queue_ok_push)

section \<open>Released messages\<close>

text \<open>
  The due messages of one priority in the order of the delay set, that is by due time: the
  delay thread appends them to the back of the deque, where \<open>pop\<close> takes from.
\<close>

definition due :: "Queue \<Rightarrow> timestamp \<Rightarrow> nat \<Rightarrow> ptr list" where
  "due q now i = filter (\<lambda>p. state_ts (entry q p) \<le> now \<and> unat (priority (entry q p)) = i) (m_msg_delay q)"

lemma release_due_queues:
  "queue_ok q \<Longrightarrow> i < length (m_queue_list q) \<Longrightarrow>
     m_queue_list (release_due q now) ! i = m_queue_list q ! i @ due q now i"
proof (induction q now rule: release_due.induct)
  case (1 q now)
  show ?case
  proof (cases "m_msg_delay q")
    case Nil
    then show ?thesis by (simp add: release_due_stop due_def)
  next
    case (Cons x ds)
    have dist: "distinct (x # ds)" using wf_delay_distinct[OF 1(2)] by (simp add: Cons)
    show ?thesis
    proof (cases "state_ts (entry q x) \<le> now")
      case True
      let ?q = "release_one q now x"
      note rel = release_one_spec(1)[OF 1(2) Cons, of now]
      have e: "entry ?q y = (if y = x then released (entry q x) now else entry q y)" for y
        using wf_live_heap[OF 1(2) release_one_spec(2)[OF 1(2) Cons]] by (simp add: rel entry_set_entry)
      have len: "length (m_queue_list ?q) = length (m_queue_list q)" by (simp add: rel)
      have "due ?q now i = filter (\<lambda>p. state_ts (entry q p) \<le> now \<and> unat (priority (entry q p)) = i) ds"
        using dist unfolding due_def by (intro filter_cong) (auto simp: rel e Cons simp flip: rel)
      moreover have "m_queue_list (release_due ?q now) ! i = m_queue_list ?q ! i @ due ?q now i"
        using 1(1)[unfolded Cons list.sel] queue_ok_release_one[OF 1(2) Cons] 1(3) True len by simp
      ultimately show ?thesis
        using True 1(3) by (simp add: release_due_step[OF Cons True] due_def Cons rel nth_push)
    next
      case False
      have later: "state_ts (entry q y) > now" if "y \<in> set ds" for y
        using wf_sorted_delay[OF 1(2)] False that by (fastforce simp: Cons)
      then have "due q now i = []"
        using False by (force simp: due_def Cons filter_empty_conv dest: later)
      then show ?thesis using False by (simp add: release_due_stop Cons)
    qed
  qed
qed

lemma release_due_lanes:
  assumes ok: "queue_ok q" and i: "i < length (m_queue_list q)"
  shows "lane_ids (release_due q now) ! i = map (id_of q) (rev (due q now i)) @ lane_ids q ! i"
proof -
  have "id_of (release_due q now) p = id_of q p" for p
    using release_due_entry[OF ok, of now p] by (simp add: id_of_def)
  moreover have "length (m_queue_list (release_due q now)) = length (m_queue_list q)"
    using same_frame_release[of q now] by (simp add: same_frame_def same_params_def)
  ultimately show ?thesis using i by (simp add: lane_ids_def release_due_queues[OF ok])
qed

end
