(* ===== verification/Queue_Failed.thy ===== *)
theory Queue_Failed
  imports Queue_Service
begin

text \<open>
  The failed messages: which identifiers \<open>getFailed\<close> and \<open>eraseFailed\<close> return, and what the
  counters of \<open>getCounts\<close> count.
\<close>

definition failed_id :: "Queue \<Rightarrow> string \<Rightarrow> bool" where
  "failed_id q i \<longleftrightarrow>
     (case map_find (m_msg_map q) i of None \<Rightarrow> False | Some p \<Rightarrow> state (entry q p) = MSG_FAILED)"

lemma failed_id_iff:
  "queue_ok q \<Longrightarrow> failed_id q i \<longleftrightarrow> (\<exists>p \<in> with_state q MSG_FAILED. id_of q p = i)"
  by (force simp: failed_id_def with_state_def id_of_def live_find find_live find_id split: option.splits)

lemma inj_on_id: "queue_ok q \<Longrightarrow> inj_on (id_of q) (live q)"
  by (rule inj_onI) (metis id_of_def live_find option.inject)

lemma card_failed_ids:
  assumes "queue_ok q"
  shows "card {i. failed_id q i} = unat (m_count_failed q)"
proof -
  have "{i. failed_id q i} = id_of q ` with_state q MSG_FAILED"
    using failed_id_iff[OF assms] by auto
  moreover have "inj_on (id_of q) (with_state q MSG_FAILED)"
    using inj_on_id[OF assms] by (rule inj_on_subset) (auto simp: with_state_def)
  ultimately show ?thesis using unat_count_failed[OF assms] by (simp add: card_image)
qed

lemma finite_failed_ids: "queue_ok q \<Longrightarrow> finite {i. failed_id q i}"
  by (rule finite_subset[of _ "id_of q ` live q"]) (auto simp: failed_id_iff with_state_def)

section \<open>\<open>getFailed\<close>\<close>

lemma set_getFailed: "queue_ok q \<Longrightarrow> set (getFailed q) = {i. failed_id q i}"
proof -
  assume ok: "queue_ok q"
  have "set (getFailed q) = {i. \<exists>p. (i, p) \<in> set (m_msg_map q) \<and> state (entry q p) = MSG_FAILED}"
    by (force simp: getFailed_def)
  also have "\<dots> = {i. failed_id q i}"
    by (auto simp: failed_id_def wf_find[OF ok, symmetric] split: option.splits)
  finally show ?thesis .
qed

lemma sorted_getFailed: "queue_ok q \<Longrightarrow> sorted_wrt (<) (getFailed q)"
  using wf_map_ok[of q]
  by (simp add: getFailed_def map_ok_def sorted_wrt_map sorted_wrt_filter)

lemma length_getFailed: "queue_ok q \<Longrightarrow> length (getFailed q) = unat (m_count_failed q)"
  by (metis card_failed_ids distinct_card set_getFailed sorted_getFailed strict_sorted_iff)

section \<open>\<open>eraseFailed\<close>\<close>

text \<open>The list without repetitions, each element at its first position.\<close>

definition firsts :: "'a list \<Rightarrow> 'a list" where
  "firsts xs = rev (remdups (rev xs))"

lemma remdups_snoc: "remdups (xs @ [x]) = filter (\<lambda>y. y \<noteq> x) (remdups xs) @ [x]"
  by (induction xs) auto

lemma firsts_simps [simp]:
  "firsts [] = []"
  "firsts (x # xs) = x # firsts (filter (\<lambda>y. y \<noteq> x) xs)"
  by (simp_all add: firsts_def remdups_snoc rev_filter remdups_filter)

lemma set_firsts [simp]: "set (firsts xs) = set xs"
  by (simp add: firsts_def)

lemma distinct_firsts [simp]: "distinct (firsts xs)"
  by (simp add: firsts_def)

lemma erase_loop_result:
  assumes "map_ok (m_msg_map q)"
  shows "fst (erase_loop is f q) = f @ firsts (filter (failed_id q) is) \<and>
    map_find (m_msg_map (snd (erase_loop is f q))) =
      (\<lambda>k. if k \<in> set is \<and> failed_id q k then None else map_find (m_msg_map q) k) \<and>
    m_heap (snd (erase_loop is f q)) = m_heap q \<and>
    m_count_failed (snd (erase_loop is f q)) = m_count_failed q"
  using assms
proof (induction "is" f q rule: erase_loop.induct)
  case (2 i "is" f q)
  show ?case
  proof (cases "failed_id q i")
    case False
    then have "erase_loop (i # is) f q = erase_loop is f q"
      by (auto simp: failed_id_def split: option.splits)
    moreover have "fst (erase_loop is f q) = f @ firsts (filter (failed_id q) is) \<and>
      map_find (m_msg_map (snd (erase_loop is f q))) =
        (\<lambda>k. if k \<in> set is \<and> failed_id q k then None else map_find (m_msg_map q) k) \<and>
      m_heap (snd (erase_loop is f q)) = m_heap q \<and>
      m_count_failed (snd (erase_loop is f q)) = m_count_failed q"
    proof (cases "map_find (m_msg_map q) i")
      case None
      show ?thesis using 2(1)[OF None 2(4)] .
    next
      case (Some m)
      then have nf: "state (entry q m) \<noteq> MSG_FAILED" using False by (simp add: failed_id_def)
      show ?thesis using 2(3)[OF Some nf 2(4)] .
    qed
    ultimately show ?thesis using False by auto
  next
    case True
    then obtain m where m: "map_find (m_msg_map q) i = Some m" "state (entry q m) = MSG_FAILED"
      by (auto simp: failed_id_def split: option.splits)
    let ?q = "q\<lparr> m_msg_pool := m_msg_pool q @ [m], m_msg_map := map_erase i (m_msg_map q) \<rparr>"
    have fid: "failed_id ?q k \<longleftrightarrow> failed_id q k \<and> k \<noteq> i" for k :: string
      by (simp add: failed_id_def map_find_erase split: option.split)
    have eq: "erase_loop (i # is) f q = erase_loop is (f @ [i]) ?q" using m by simp
    have IH: "fst (erase_loop is (f @ [i]) ?q) = (f @ [i]) @ firsts (filter (failed_id ?q) is) \<and>
      map_find (m_msg_map (snd (erase_loop is (f @ [i]) ?q))) =
        (\<lambda>k. if k \<in> set is \<and> failed_id ?q k then None else map_find (m_msg_map ?q) k) \<and>
      m_heap (snd (erase_loop is (f @ [i]) ?q)) = m_heap ?q \<and>
      m_count_failed (snd (erase_loop is (f @ [i]) ?q)) = m_count_failed ?q"
      using 2(2)[OF m] map_ok_erase[OF 2(4)] by simp
    have "filter (failed_id ?q) is = filter (\<lambda>y. y \<noteq> i) (filter (failed_id q) is)"
      unfolding filter_filter by (rule filter_cong[OF refl]) (rule fid)
    then have ids: "(f @ [i]) @ firsts (filter (failed_id ?q) is) = f @ firsts (filter (failed_id q) (i # is))"
      using True by simp
    have gone: "(\<lambda>k. if k \<in> set is \<and> failed_id ?q k then None else map_find (m_msg_map ?q) k)
        = (\<lambda>k. if k \<in> set (i # is) \<and> failed_id q k then None else map_find (m_msg_map q) k)"
      unfolding fid using True by (simp add: fun_eq_iff map_find_erase)
    show ?thesis
      unfolding eq using IH[unfolded ids gone] by simp
  qed
qed simp

lemma eraseFailed_result:
  assumes ok: "queue_ok q"
  shows "fst (eraseFailed q is) = firsts (filter (failed_id q) is)"
    and "map_find (m_msg_map (snd (eraseFailed q is))) =
      (\<lambda>k. if k \<in> set is \<and> failed_id q k then None else map_find (m_msg_map q) k)"
    and "entry (snd (eraseFailed q is)) p = entry q p"
    and "m_count_failed (snd (eraseFailed q is)) =
      m_count_failed q - word_of_nat (length (firsts (filter (failed_id q) is)))"
  using erase_loop_result[OF wf_map_ok[OF ok], of "is" "[]"]
  by (simp_all add: eraseFailed_corrected corrected_def entry_def)

lemma eraseFailed_count:
  assumes ok: "queue_ok q"
  shows "unat (m_count_failed (snd (eraseFailed q is))) + length (fst (eraseFailed q is)) = unat (m_count_failed q)"
proof -
  let ?n = "length (firsts (filter (failed_id q) is))"
  have "?n = card (set (firsts (filter (failed_id q) is)))" by (simp only: distinct_card distinct_firsts)
  also have "\<dots> \<le> card {i. failed_id q i}"
    by (rule card_mono[OF finite_failed_ids[OF ok]]) auto
  finally have n: "?n \<le> unat (m_count_failed q)" by (simp add: card_failed_ids[OF ok])
  have "unat (m_count_failed q - word_of_nat ?n) = unat (m_count_failed q) - ?n"
    using unat_of_nat_le[OF n] n by (simp add: unat_sub word_le_nat_alt)
  then show ?thesis using n by (simp add: eraseFailed_result[OF ok])
qed

section \<open>Counts\<close>

lemma getCounts_cards:
  assumes ok: "queue_ok q" and counts: "getCounts q = (active, failed, free)"
  shows "unat active + unat failed + unat free = unat (getCapacity q) \<and>
    unat failed = card {p \<in> live q. state (entry q p) = MSG_FAILED} \<and>
    unat active = card {p \<in> live q. state (entry q p) \<noteq> MSG_FAILED}"
proof -
  let ?n = "length (m_msg_map q)"
  have n: "unat (word_of_nat ?n :: u64) = ?n" using unat_of_nat_le[OF wf_size[OF ok]] .
  have f: "unat (m_count_failed q) = card (with_state q MSG_FAILED)" using unat_count_failed[OF ok] .
  have le: "card (with_state q MSG_FAILED) \<le> ?n" using card_with_state_le[OF ok] .
  have "m_count_failed q \<le> word_of_nat ?n" "word_of_nat ?n \<le> m_capacity q"
    using f le n wf_size[OF ok] by (simp_all add: word_le_nat_alt)
  then have "unat active = ?n - card (with_state q MSG_FAILED)" "unat free = unat (m_capacity q) - ?n"
    using counts n f by (auto simp: getCounts_def unat_sub)
  moreover have "card {p \<in> live q. state (entry q p) \<noteq> MSG_FAILED} = ?n - card (with_state q MSG_FAILED)"
  proof -
    have "{p \<in> live q. state (entry q p) \<noteq> MSG_FAILED} = live q - with_state q MSG_FAILED"
      by (auto simp: with_state_def)
    then show ?thesis
      by (simp add: card_Diff_subset card_live[OF ok, symmetric] with_state_def Collect_mono subset_iff)
  qed
  moreover have "failed = m_count_failed q" using counts by (simp add: getCounts_def)
  ultimately show ?thesis
    using f le wf_size[OF ok] by (simp add: getCapacity_def with_state_def)
qed

lemma reachable_erase: "reachable_queue q \<Longrightarrow> reachable_queue (snd (eraseFailed q is))"
  by (erule reachable_step, rule step_erase[of _ _ "fst (eraseFailed q is)"]) simp

end
