(* ===== verification/Queue_Spec.thy ===== *)
theory Queue_Spec
  imports Queue_Failed
begin

text \<open>
  What the queue promises about each message, without deques, entries, counters and time: the
  life cycle of an identifier. The queue is shown to implement it by a simulation, so that every
  run of the queue is a run of the life cycle.
\<close>

section \<open>The life cycle\<close>

text \<open>A message is ready to be received, held under a token, due later, or dead.\<close>

datatype life = Ready | Held string | Later | Dead

text \<open>The specification keeps the capacity and the life of each known identifier.\<close>

record service =
  sv_capacity :: nat
  sv_life :: "string \<Rightarrow> life option"

definition queued_life :: "u64 \<Rightarrow> life" where
  "queued_life delay = (if delay = 0 then Ready else Later)"

text \<open>
  The answer to a receive request: the least the service does is to hand out a ready message
  under the token chosen, if there is one, and to make the caller wait if there is none.
\<close>

inductive receive :: "(string \<Rightarrow> life option) \<Rightarrow> string \<Rightarrow> ptr outcome \<Rightarrow> (string \<Rightarrow> life option) \<Rightarrow> bool" where
  received: "s i = Some Ready \<Longrightarrow> receive s tok (Return p) (s(i \<mapsto> Held tok))"
| waits: "\<forall>i. s i \<noteq> Some Ready \<Longrightarrow> receive s tok Wait s"

text \<open>The answer to an acknowledgement: accepted exactly for the holder of the token.\<close>

inductive acknowledge ::
  "(string \<Rightarrow> life option) \<Rightarrow> string \<Rightarrow> string \<Rightarrow> bool \<Rightarrow> u64 \<Rightarrow> unit outcome \<Rightarrow> (string \<Rightarrow> life option) \<Rightarrow> bool"
where
  finished: "s i = Some (Held tok) \<Longrightarrow> acknowledge s i tok False d (Return ()) (s(i := None))"
| given_back: "s i = Some (Held tok) \<Longrightarrow> acknowledge s i tok True d (Return ()) (s(i \<mapsto> queued_life d))"
| refused: "s i \<noteq> Some (Held tok) \<Longrightarrow> acknowledge s i tok rq d (Throw e) s"

text \<open>What time may do to a life: a holder loses the message, or it dies; a delay ends.\<close>

inductive times_out :: "life option \<Rightarrow> life option \<Rightarrow> bool" where
  keeps: "times_out l l"
| requeued: "times_out (Some (Held tok)) (Some Ready)"
| dies: "times_out (Some (Held tok)) (Some Dead)"

inductive life_step :: "nat \<Rightarrow> (string \<Rightarrow> life option) \<Rightarrow> event \<Rightarrow> (string \<Rightarrow> life option) \<Rightarrow> bool" for cap where
  life_push: "s i = None \<Longrightarrow> card (dom s) < cap \<Longrightarrow>
    life_step cap s (Push i pr d now now' (Return ())) (s(i \<mapsto> queued_life d))"
| life_push_refused: "life_step cap s (Push i pr d now now' (Throw e)) s"
| life_pop: "receive s (to_string (unat rnd)) r s' \<Longrightarrow> life_step cap s (Pop now rnd r) s'"
| life_resume: "receive s (to_string (unat rnd)) r s' \<Longrightarrow> life_step cap s (Pop_resume now rnd r) s'"
| life_spurious: "life_step cap s Pop_spurious s"
| life_ack: "acknowledge s i tok rq d r s' \<Longrightarrow> life_step cap s (Ack i tok rq d now r) s'"
| life_pop_ack_refused: "acknowledge s i tok rq d (Throw e) s \<Longrightarrow>
    life_step cap s (Pop_ack i tok rq d now now' rnd (Throw e)) s"
| life_pop_ack: "acknowledge s i tok rq d (Return ()) s1 \<Longrightarrow> receive s1 (to_string (unat rnd)) r s' \<Longrightarrow>
    life_step cap s (Pop_ack i tok rq d now now' rnd r) s'"
| life_erase: "life_step cap s (Erase_failed is ids) (\<lambda>i. if i \<in> set is \<and> s i = Some Dead then None else s i)"
| life_monitor: "\<forall>i. times_out (s i) (s' i) \<Longrightarrow> life_step cap s (Monitor_poll now) s'"
| life_delay: "\<forall>i. s' i = s i \<or> s i = Some Later \<and> s' i = Some Ready \<Longrightarrow> life_step cap s (Delay_poll now) s'"

inductive_cases life_stepE: "life_step cap s ev s'"

definition service_init :: "service \<Rightarrow> bool" where
  "service_init s \<longleftrightarrow> sv_life s = Map.empty"

definition service_step :: "service \<Rightarrow> event \<Rightarrow> service \<Rightarrow> bool" where
  "service_step s ev s' \<longleftrightarrow> sv_capacity s' = sv_capacity s \<and> life_step (sv_capacity s) (sv_life s) ev (sv_life s')"

section \<open>The abstraction\<close>

definition life_of :: "MsgEntry_t \<Rightarrow> life" where
  "life_of e = (case state e of
     MSG_QUEUED \<Rightarrow> Ready | MSG_DELAYED \<Rightarrow> Later | MSG_RUNNING \<Rightarrow> Held (msg_token (message e)) | MSG_FAILED \<Rightarrow> Dead)"

definition lives :: "Queue \<Rightarrow> string \<Rightarrow> life option" where
  "lives q i = map_option (\<lambda>p. life_of (entry q p)) (map_find (m_msg_map q) i)"

definition service_of :: "Queue \<Rightarrow> service" where
  "service_of q = \<lparr> sv_capacity = unat (m_capacity q), sv_life = lives q \<rparr>"

lemma life_of_simps [simp]:
  "life_of e = Ready \<longleftrightarrow> state e = MSG_QUEUED"
  "life_of e = Later \<longleftrightarrow> state e = MSG_DELAYED"
  "life_of e = Dead \<longleftrightarrow> state e = MSG_FAILED"
  "life_of e = Held tok \<longleftrightarrow> state e = MSG_RUNNING \<and> msg_token (message e) = tok"
  by (auto simp: life_of_def split: MsgState_t.split)

lemma lives_Some: "lives q i = Some l \<longleftrightarrow> (\<exists>p. map_find (m_msg_map q) i = Some p \<and> life_of (entry q p) = l)"
  by (auto simp: lives_def)

lemma card_dom_lives: "queue_ok q \<Longrightarrow> card (dom (lives q)) = length (m_msg_map q)"
proof -
  assume ok: "queue_ok q"
  have "i \<in> dom (lives q) \<longleftrightarrow> i \<in> id_of q ` live q" for i
  proof
    assume "i \<in> dom (lives q)"
    then obtain p where p: "map_find (m_msg_map q) i = Some p" by (auto simp: lives_def)
    show "i \<in> id_of q ` live q"
      using find_live[OF ok p] find_id[OF ok p] by (auto simp: id_of_def)
  next
    assume "i \<in> id_of q ` live q"
    then show "i \<in> dom (lives q)" using live_find[OF ok] by (auto simp: lives_def id_of_def)
  qed
  then have "dom (lives q) = id_of q ` live q" by blast
  then show ?thesis using card_live[OF ok] card_image[OF inj_on_id[OF ok]] by simp
qed

text \<open>Two queues that store the same messages with the same lives.\<close>

lemma lives_cong:
  assumes "m_msg_map q' = m_msg_map q" and "\<And>p. p \<in> live q \<Longrightarrow> life_of (entry q' p) = life_of (entry q p)"
    and "queue_ok q"
  shows "lives q' = lives q"
proof
  fix i
  show "lives q' i = lives q i"
    using assms(1,2) find_live[OF assms(3), of i] by (cases "map_find (m_msg_map q) i") (simp_all add: lives_def)
qed

text \<open>One message changes its life.\<close>

lemma lives_upd:
  assumes "queue_ok q" and "map_find (m_msg_map q) i = Some p" and "m_msg_map q' = m_msg_map q"
    and "\<And>x. x \<in> live q \<Longrightarrow> x \<noteq> p \<Longrightarrow> life_of (entry q' x) = life_of (entry q x)"
  shows "lives q' = (lives q)(i \<mapsto> life_of (entry q' p))"
proof
  fix k
  show "lives q' k = ((lives q)(i \<mapsto> life_of (entry q' p))) k"
  proof (cases "map_find (m_msg_map q) k")
    case None
    then show ?thesis using assms(2,3) by (auto simp: lives_def)
  next
    case (Some x)
    show ?thesis
    proof (cases "k = i")
      case True
      then show ?thesis using assms(2,3) by (simp add: lives_def)
    next
      case False
      then have "x \<noteq> p" using find_id[OF assms(1) Some] find_id[OF assms(1,2)] by blast
      then have "life_of (entry q' x) = life_of (entry q x)" using assms(4)[OF find_live[OF assms(1) Some]] by blast
      then show ?thesis using False Some assms(3) by (simp add: lives_def)
    qed
  qed
qed

text \<open>A message is added.\<close>

lemma lives_put:
  assumes "queue_ok q" and "m_msg_map q' = map_put i p (m_msg_map q)"
    and "\<And>x. x \<in> live q \<Longrightarrow> life_of (entry q' x) = life_of (entry q x)"
  shows "lives q' = (lives q)(i \<mapsto> life_of (entry q' p))"
proof
  fix k
  show "lives q' k = ((lives q)(i \<mapsto> life_of (entry q' p))) k"
  proof (cases "k = i")
    case False
    then show ?thesis
      using assms(2,3) find_live[OF assms(1), of k]
      by (cases "map_find (m_msg_map q) k") (simp_all add: lives_def smap.find_put[OF wf_map_ok[OF assms(1)]])
  qed (use assms(2) in \<open>simp add: lives_def smap.find_put[OF wf_map_ok[OF assms(1)]]\<close>)
qed

section \<open>The steps of the queue\<close>

lemma push_life:
  assumes ok: "queue_ok q" and p: "push q i pr d now now' = (r, q')"
  shows "life_step (unat (m_capacity q)) (lives q) (Push i pr d now now' r) (lives q')"
proof (cases "r = Return ()")
  case True
  then have acc: "fst (push q i pr d now now') = Return ()" using p by simp
  obtain a h l where A: "map_find (m_msg_map q) i = None" "length (m_msg_map q) < unat (m_capacity q)"
      "a \<notin> live q" "a < length h" "h ! a = MsgEntry_new i pr now" "\<And>x. x \<in> live q \<Longrightarrow> h ! x = m_heap q ! x"
      "push q i pr d now now' = (Return (),
       (let q2 = q\<lparr> m_heap := h, m_msg_pool := l, m_msg_map := map_put i a (m_msg_map q) \<rparr>
        in if d \<noteq> 0 then insertDelayedMsg q2 a (now' + milliseconds d) else enqueue_front a pr q2))"
    using push_accepted[OF ok acc] by metis
  let ?q2 = "q\<lparr> m_heap := h, m_msg_pool := l, m_msg_map := map_put i a (m_msg_map q) \<rparr>"
  have q': "q' = (if d \<noteq> 0 then insertDelayedMsg ?q2 a (now' + milliseconds d) else enqueue_front a pr ?q2)"
    using p A(7) by (simp add: Let_def)
  have m: "m_msg_map q' = map_put i a (m_msg_map q)" by (simp add: q')
  have e: "entry q' x = entry q x" if "x \<in> live q" for x
  proof -
    have "x \<noteq> a" using A(3) that by blast
    then show ?thesis
      using A(6)[OF that] by (simp add: q' entry_def insertDelayedMsg_def set_entry_def enqueue_front_def Let_def)
  qed
  have "life_of (entry q' a) = queued_life d"
    using A(4,5) by (auto simp: q' life_of_def queued_life_def entry_def insertDelayedMsg_def set_entry_def
        enqueue_front_def Let_def MsgEntry_new_def)
  then have "lives q' = (lives q)(i \<mapsto> queued_life d)"
    using lives_put[OF ok m] e by simp
  moreover have "lives q i = None" using A(1) by (simp add: lives_def)
  moreover have "card (dom (lives q)) < unat (m_capacity q)" using A(2) card_dom_lives[OF ok] by simp
  ultimately show ?thesis by (simp add: True life_push)
next
  case False
  then obtain e where "r = Throw e" "q' = q" using p by (auto simp: push_def Let_def split: if_splits prod.splits)
  then show ?thesis by (simp add: life_push_refused)
qed

lemma pop_life:
  assumes ok: "queue_ok q" and p: "popImpl q now rnd = (r, q')"
  shows "receive (lives q) (to_string (unat rnd)) r (lives q')"
proof (cases "m_count_queued q = 0")
  case True
  then have "\<forall>i. lives q i \<noteq> Some Ready"
    using no_queued[OF ok] find_live[OF ok] by (auto simp: lives_Some with_state_def)
  moreover have "lives q' = lives q" "r = Wait" using True p by (auto simp: popImpl_def lives_def entry_def)
  ultimately show ?thesis by (simp add: waits)
next
  case False
  obtain a qs where pf: "pop_first (m_queue_list q) = Some (a, qs)" using pop_available[OF ok False] by blast
  note a = pop_first_live[OF ok pf]
  have lt: "a < length (m_heap q)" using wf_live_heap[OF ok a(1)] .
  have q': "r = Return a" "q' = (set_entry a ((entry q a)\<lparr> state := MSG_RUNNING, state_ts := now,
        message := (message (entry q a))\<lparr> msg_token := to_string (unat rnd) \<rparr> \<rparr>) q)
      \<lparr> m_queue_list := qs, m_count_queued := m_count_queued q - 1 \<rparr>"
    using p popImpl_nonempty[OF pf False] by simp_all
  let ?i = "msg_id (message (entry q a))"
  note find = live_find[OF ok a(1)]
  have e: "entry q' x = (if x = a then (entry q a)\<lparr> state := MSG_RUNNING, state_ts := now,
        message := (message (entry q a))\<lparr> msg_token := to_string (unat rnd) \<rparr> \<rparr> else entry q x)" for x
    using lt by (simp add: q' entry_set_entry)
  have "lives q' = (lives q)(?i \<mapsto> life_of (entry q' a))"
    by (rule lives_upd[OF ok find]) (use lt in \<open>simp_all add: q'(2) entry_set_entry\<close>)
  moreover have "life_of (entry q' a) = Held (to_string (unat rnd))" by (simp add: e)
  moreover have "lives q ?i = Some Ready" using a(2) find by (auto simp: lives_Some)
  ultimately show ?thesis by (simp add: q'(1) received)
qed

lemma ack_life:
  assumes ok: "queue_ok q" and a: "ackImpl q i tok rq d now = (r, q')"
  shows "acknowledge (lives q) i tok rq d r (lives q')"
proof (cases rule: ackImpl_cases[of q i tok rq d now])
  case no_id
  then have "r = Throw (runtime_error ''No message found matching ID'')" "q' = q" "lives q i = None"
    using a by (simp_all add: lives_def)
  then show ?thesis by (simp add: refused)
next
  case (bad_token p)
  then have "r = Throw (runtime_error ''Invalid message token'')" "q' = q" "lives q i \<noteq> Some (Held tok)"
    using a by (auto simp: lives_Some)
  then show ?thesis by (simp add: refused)
next
  case (bad_state p)
  then have "r = Throw (runtime_error ''Invalid message state'')" "q' = q" "lives q i \<noteq> Some (Held tok)"
    using a by (auto simp: lives_Some)
  then show ?thesis by (simp add: refused)
next
  case (removed p)
  have "lives q' = (lives q)(i := None)"
    using a removed(5) by (auto simp: lives_def map_find_erase entry_def)
  moreover have "lives q i = Some (Held tok)" "r = Return ()" using removed a by (auto simp: lives_Some)
  ultimately show ?thesis using removed(4) by (simp add: finished)
next
  case (requeue p)
  have lt: "p < length (m_heap q)" using wf_live_heap[OF ok find_live[OF ok requeue(1)]] .
  have q': "r = Return ()" "q' = enqueue_front p (priority (entry q p))
         (set_entry p ((entry q p)\<lparr> boosted := False, message := (message (entry q p))\<lparr> msg_token := [] \<rparr>,
            state := MSG_QUEUED, state_ts := now \<rparr>) q)" using a requeue(6) by simp_all
  have "lives q' = (lives q)(i \<mapsto> life_of (entry q' p))"
    by (rule lives_upd[OF ok requeue(1)]) (use lt in \<open>simp_all add: q'(2) entry_set_entry\<close>)
  moreover have "life_of (entry q' p) = queued_life d"
    using lt requeue(5) by (simp add: q'(2) entry_set_entry life_of_def queued_life_def)
  moreover have "lives q i = Some (Held tok)" using requeue by (auto simp: lives_Some)
  ultimately show ?thesis using requeue(4) by (simp add: q'(1) given_back)
next
  case (requeue_later p)
  have lt: "p < length (m_heap q)" using wf_live_heap[OF ok find_live[OF ok requeue_later(1)]] .
  have q': "r = Return ()" "q' = insertDelayedMsg
         (set_entry p ((entry q p)\<lparr> boosted := False, message := (message (entry q p))\<lparr> msg_token := [] \<rparr> \<rparr>) q)
         p (now + milliseconds d)" using a requeue_later(6) by simp_all
  have e: "life_of (entry q' x) = (if x = p then Later else life_of (entry q x))" for x
    using lt by (cases "x = p") (simp_all add: q'(2) entry_insertDelayedMsg entry_set_entry)
  have "lives q' = (lives q)(i \<mapsto> life_of (entry q' p))"
    by (rule lives_upd[OF ok requeue_later(1)]) (simp_all add: e, simp add: q'(2))
  moreover have "life_of (entry q' p) = queued_life d"
    using requeue_later(5) by (simp add: e queued_life_def)
  moreover have "lives q i = Some (Held tok)" using requeue_later by (auto simp: lives_Some)
  ultimately show ?thesis using requeue_later(4) by (simp add: q'(1) given_back)
qed

lemma erase_life:
  assumes ok: "queue_ok q"
  shows "lives (snd (eraseFailed q is)) = (\<lambda>i. if i \<in> set is \<and> lives q i = Some Dead then None else lives q i)"
  using eraseFailed_result(2,3)[OF ok, of "is"]
  by (auto simp: lives_def fun_eq_iff failed_id_def split: option.split)

lemma monitor_life:
  assumes ok: "queue_ok q" and run: "m_run q"
  shows "times_out (lives q i) (lives (snd (monitor_poll q now)) i)"
proof (cases "map_find (m_msg_map q) i")
  case None
  then show ?thesis using monitor_poll_parts[OF run, of now] monitor_scan_ok[OF ok, of now] by (simp add: lives_def keeps)
next
  case (Some p)
  let ?q = "snd (monitor_poll q now)"
  have live: "p \<in> live q" by (rule find_live[OF ok Some])
  have m: "map_find (m_msg_map ?q) i = Some p"
    using monitor_poll_parts[OF run, of now] monitor_scan_ok[OF ok, of now] Some by simp
  have e: "entry ?q p = scanned (m_fail_timeout q) (m_max_retries q) (now - milliseconds (m_fail_timeout q))
        (now - milliseconds (m_boost_timeout q)) (entry q p)"
    using monitor_poll_parts[OF run, of now p] monitor_scan_entry[OF ok, of now p] live by simp
  show ?thesis
    by (auto simp: lives_def Some m e scanned_def life_of_def split: MsgState_t.split intro: times_out.intros)
qed

lemma delay_life:
  assumes ok: "queue_ok q"
  shows "lives (release_due q now) i = lives q i \<or> lives q i = Some Later \<and> lives (release_due q now) i = Some Ready"
proof (cases "map_find (m_msg_map q) i")
  case (Some p)
  have "p \<in> set (m_msg_delay q) \<Longrightarrow> state (entry q p) = MSG_DELAYED"
    using ok by (auto simp: queue_ok_def wf_sched_def with_state_def dest!: arg_cong[of _ _ set_mset])
  then show ?thesis
    using release_due_entry[OF ok, of now p] Some
    by (cases "p \<in> set (m_msg_delay q) \<and> state_ts (entry q p) \<le> now") (simp_all add: lives_def)
qed (simp add: lives_def)

section \<open>The simulation\<close>

lemma lives_fields:
  "m_msg_map q' = m_msg_map q \<Longrightarrow> m_heap q' = m_heap q \<Longrightarrow> lives q' = lives q"
  by (simp add: lives_def fun_eq_iff entry_def)

lemma step_life: "queue_step q ev q' \<Longrightarrow> queue_ok q \<Longrightarrow> m_run q \<Longrightarrow> life_step (unat (m_capacity q)) (lives q) ev (lives q')"
proof (induction rule: queue_step.induct)
  case (step_push q i pr d now now' r q')
  then show ?case by (intro push_life)
next
  case (step_pop q now rnd r q')
  then show ?case using pop_life[of q now rnd r q'] by (simp add: pop_def life_pop)
next
  case (step_resume q now rnd r q')
  let ?q = "q\<lparr> m_pop_cv := cv_resume (m_pop_cv q) \<rparr>"
  have "queue_ok ?q" using step_resume(3) by (simp add: queue_ok_fields)
  then have "receive (lives ?q) (to_string (unat rnd)) r (lives q')"
    using pop_life[of ?q now rnd r q'] step_resume(2) unfolding pop_resume_def by blast
  moreover have "lives ?q = lives q" by (rule lives_fields) simp_all
  ultimately show ?case by (simp only: life_resume)
next
  case (step_spurious q)
  have "lives (q\<lparr> m_pop_cv := notify_one (m_pop_cv q) \<rparr>) = lives q" by (rule lives_fields) simp_all
  then show ?case by (simp add: life_spurious)
next
  case (step_ack q i tok rq d now r q')
  then show ?case using ack_life[of q i tok rq d now r q'] by (simp add: ack_def life_ack)
next
  case (step_pop_ack q i tok rq d now now' rnd r q')
  show ?case
  proof (cases rule: popAck_cases[of q i tok rq d now now' rnd])
    case (rejected e)
    then show ?thesis
      using ack_life[OF step_pop_ack(2) rejected(1)] step_pop_ack(1) by (simp add: life_pop_ack_refused)
  next
    case (acked q1)
    have "queue_ok q1" using queue_ok_ackImpl[OF step_pop_ack(2), of i tok rq d now] acked(1) by simp
    then have "receive (lives q1) (to_string (unat rnd)) r (lives q')"
      using pop_life[of q1 now' rnd r q'] acked(2) step_pop_ack(1) by simp
    then show ?thesis using ack_life[OF step_pop_ack(2) acked(1)] by (rule_tac life_pop_ack)
  qed
next
  case (step_erase q "is" ids q')
  then have "lives q' = (\<lambda>i. if i \<in> set is \<and> lives q i = Some Dead then None else lives q i)"
    using erase_life[of q "is"] by simp
  then show ?case by (simp add: life_erase)
next
  case (step_monitor q now q')
  then have "\<forall>i. times_out (lives q i) (lives q' i)" using monitor_life[of q _ now] by simp
  then show ?case by (rule life_monitor)
next
  case (step_delay q now q')
  then have "q' = release_due q now" by (simp add: delay_poll_def split: if_splits)
  then have "\<forall>i. lives q' i = lives q i \<or> lives q i = Some Later \<and> lives q' i = Some Ready"
    using delay_life[OF step_delay(2), of now] by simp
  then show ?case by (rule life_delay)
qed

interpretation queue_life: simulation queue_init queue_step counters_ok service_of "\<lambda>ev. ev" service_init service_step
proof
  show "service_init (service_of q)" if "queue_init q" for q
    using that by (auto simp: queue_init_def service_init_def service_of_def lives_def fun_eq_iff Queue_create_def map_find_def)
  show "service_step (service_of q) ev (service_of q')" if "counters_ok q" "queue_step q ev q'" for q ev q'
    using that step_life[of q ev q'] queue_step_frame[of q ev q']
    by (simp add: service_step_def service_of_def counters_ok_def same_params_def)
qed

section \<open>What follows for the queue\<close>

lemma reachable_inv_all: "reachable_queue q \<Longrightarrow> counters_ok q"
  by (rule reachable_counters)

lemma run_life: "reachable_queue q \<Longrightarrow> run queue_step q evs q' \<Longrightarrow> run service_step (service_of q) evs (service_of q')"
  using queue_life.run_sim[of q evs q'] reachable_inv_all by simp

text \<open>Dead identifiers stay dead until they are erased.\<close>

lemma times_out_Dead: "times_out (Some Dead) l \<Longrightarrow> l = Some Dead"
  by (erule times_out.cases) simp_all

lemma dead_step:
  "life_step cap s ev s' \<Longrightarrow> s i = Some Dead \<Longrightarrow> (\<forall>is ids. ev = Erase_failed is ids \<longrightarrow> i \<notin> set is) \<Longrightarrow> s' i = Some Dead"
  by (induction rule: life_step.induct)
    (auto elim!: receive.cases acknowledge.cases dest!: spec[of _ i] times_out_Dead split: if_splits)

lemma dead_run:
  "run service_step a evs b \<Longrightarrow> sv_life a i = Some Dead \<Longrightarrow> \<forall>is ids. Erase_failed is ids \<in> set evs \<longrightarrow> i \<notin> set is \<Longrightarrow>
     sv_life b i = Some Dead"
proof (induction rule: run.induct)
  case (run_Cons s l t ls u)
  then have "sv_life t i = Some Dead" by (auto simp: service_step_def intro: dead_step)
  with run_Cons show ?case by auto
qed

end
