(* ===== verification/Queue_Props.thy ===== *)
theory Queue_Props
  imports Queue_Spec
begin

text \<open>
  The properties of the queue that publishers, consumers and the monitoring process rely on,
  stated over reachable states of the shared queue, that is after any sequence of complete
  operations by any number of threads.
\<close>

section \<open>A run for the witnesses\<close>

definition demo_empty :: Queue where
  "demo_empty = Queue_create 2 4 1000 2 5000 250 True"

text \<open>Two messages queued, the first of them taken, a third one delayed by 5 ms.\<close>

definition demo_two :: Queue where
  "demo_two = snd (push (snd (push demo_empty ''a'' 1 0 0 0)) ''b'' 1 0 0 0)"

definition demo_run :: Queue where
  "demo_run = snd (pop demo_two 10 7)"

definition demo_delay :: Queue where
  "demo_delay = snd (push (snd (push demo_run ''c'' 0 5 0 0)) ''d'' 0 4 0 0)"

lemma demo_reachable:
  "reachable_queue demo_empty" "reachable_queue demo_two" "reachable_queue demo_run"
  "reachable_queue demo_delay"
  by (simp_all add: demo_empty_def demo_two_def demo_run_def demo_delay_def reachable_create
      reachable_push reachable_pop)

lemma demo_find:
  "map_find (m_msg_map demo_run) ''a'' = Some 0"
  by code_simp

lemma demo_running:
  "state (entry demo_run 0) = MSG_RUNNING" "msg_token (message (entry demo_run 0)) = ''7''"
  "state_ts (entry demo_run 0) = 10" "fail_count (entry demo_run 0) = 0"
  "msg_id (message (entry demo_run 0)) = ''a''"
  by code_simp+

lemma with_token: "m\<lparr> msg_token := t \<rparr> = \<lparr> msg_id = msg_id m, msg_token = t \<rparr>"
  by (cases m) simp

section \<open>Storage and scheduling\<close>

text \<open>C3. Every message the queue knows is stored under its own identifier and is in exactly
  one place: once in the deques when its state is \<open>MSG_QUEUED\<close>, once in the delay set when it
  is \<open>MSG_DELAYED\<close>, in neither when it runs or has failed, and never in the pool of free
  entries. This holds after any interleaving of operations.\<close>

theorem message_in_one_place:
  assumes "reachable_queue q" and "map_find (m_msg_map q) i = Some p"
  shows "msg_id (message (entry q p)) = i \<and>
    count_list (concat (m_queue_list q)) p = (if state (entry q p) = MSG_QUEUED then 1 else 0) \<and>
    count_list (m_msg_delay q) p = (if state (entry q p) = MSG_DELAYED then 1 else 0) \<and>
    p \<notin> set (m_msg_pool q)"
proof -
  have ok: "queue_ok q" using assms(1) by (rule reachable_ok)
  show ?thesis using queued_once[OF ok find_live[OF ok assms(2)]] find_id[OF ok assms(2)] by simp
qed

lemma message_in_one_place_witness:
  "count_list (concat (m_queue_list demo_run)) 0 = 0 \<and> count_list (m_msg_delay demo_run) 0 = 0"
  using message_in_one_place[OF demo_reachable(3) demo_find] by (simp add: demo_running)

text \<open>C4. \<open>pop\<close> never throws on a reachable queue. With nothing queued the caller goes to sleep;
  otherwise it receives the message at the back of the first deque that is not empty, which is
  then running with the new token and time, and no other message changes.\<close>

theorem pop_serves_most_urgent:
  assumes "reachable_queue q"
  shows "if \<forall>p \<in> live q. state (entry q p) \<noteq> MSG_QUEUED
    then pop q now rnd = (Wait, q\<lparr> m_pop_cv := cv_wait (m_pop_cv q) \<rparr>)
    else \<exists>i p q'. pop q now rnd = (Return p, q') \<and>
      i < length (m_queue_list q) \<and> (\<forall>j < i. m_queue_list q ! j = []) \<and>
      m_queue_list q ! i \<noteq> [] \<and> p = last (m_queue_list q ! i) \<and>
      m_queue_list q' = (m_queue_list q)[i := butlast (m_queue_list q ! i)] \<and>
      entry q' p = (entry q p)\<lparr> state := MSG_RUNNING, state_ts := now,
        message := \<lparr> msg_id = msg_id (message (entry q p)), msg_token = to_string (unat rnd) \<rparr> \<rparr> \<and>
      (\<forall>x. x \<noteq> p \<longrightarrow> entry q' x = entry q x) \<and> m_msg_map q' = m_msg_map q"
proof -
  have ok: "queue_ok q" using assms by (rule reachable_ok)
  have empty: "(\<forall>p \<in> live q. state (entry q p) \<noteq> MSG_QUEUED) \<longleftrightarrow> m_count_queued q = 0"
    using no_queued[OF ok] by (auto simp: with_state_def)
  show ?thesis
  proof (cases "m_count_queued q = 0")
    case True
    then show ?thesis using empty by (simp add: pop_def popImpl_def)
  next
    case False
    from pop_available[OF ok this] obtain p qs where pf: "pop_first (m_queue_list q) = Some (p, qs)" by blast
    obtain i where i: "i < length (m_queue_list q)" "\<forall>j < i. m_queue_list q ! j = []" "m_queue_list q ! i \<noteq> []"
        "p = last (m_queue_list q ! i)" "qs = (m_queue_list q)[i := butlast (m_queue_list q ! i)]"
      using pop_first_spec[OF pf] by blast
    have lt: "p < length (m_heap q)" using wf_live_heap[OF ok] pop_first_live(1)[OF ok pf] by simp
    note res = popImpl_nonempty[OF pf False, of now rnd]
    show ?thesis
      unfolding empty if_not_P[OF False] pop_def res
      using i lt by (rule_tac exI[of _ i], rule_tac exI[of _ p]) (simp add: entry_set_entry with_token)
  qed
qed

lemma pop_serves_most_urgent_witness:
  "\<exists>i p q'. pop demo_two 10 7 = (Return p, q') \<and> i < length (m_queue_list demo_two) \<and>
     m_queue_list demo_two ! i \<noteq> [] \<and> p = last (m_queue_list demo_two ! i)"
proof -
  have "\<not> (\<forall>p \<in> live demo_two. state (entry demo_two p) \<noteq> MSG_QUEUED)" by code_simp
  then show ?thesis using pop_serves_most_urgent[OF demo_reachable(2), of 10 7] by (auto split: if_splits)
qed

text \<open>C5. No wake-up is lost: while a consumer sleeps in \<open>pop\<close>, at least as many consumers have
  been woken and are about to run as there are messages queued.\<close>

theorem no_lost_wakeup:
  assumes "reachable_queue q" and "cv_waiting (m_pop_cv q) > 0"
  shows "card {p \<in> live q. state (entry q p) = MSG_QUEUED} \<le> cv_woken (m_pop_cv q)"
  using reachable_wakeup[OF assms(1)] assms(2) unat_count_queued[of q]
  by (simp add: wakeup_ok_def with_state_def)

lemma no_lost_wakeup_witness:
  "card {p \<in> live (snd (push (snd (pop (snd (pop demo_empty 0 0)) 0 0)) ''a'' 0 0 0 0)).
      state (entry (snd (push (snd (pop (snd (pop demo_empty 0 0)) 0 0)) ''a'' 0 0 0 0)) p) = MSG_QUEUED} \<le> 1"
proof -
  let ?q = "snd (push (snd (pop (snd (pop demo_empty 0 0)) 0 0)) ''a'' 0 0 0 0)"
  have "reachable_queue ?q" by (intro reachable_push reachable_pop demo_reachable)
  moreover have "cv_waiting (m_pop_cv ?q) = 1" "cv_woken (m_pop_cv ?q) = 1" by code_simp+
  ultimately show ?thesis using no_lost_wakeup[of ?q] by simp
qed

text \<open>C6. First in, first out per priority: messages pushed without delay are received after
  all more urgent messages and after the earlier messages of their priority, in the order in
  which they were pushed. (The lanes of a queue are the identifiers in its deques, read from
  the end that \<open>pop\<close> takes from.)\<close>

theorem fifo_within_priority:
  assumes "reachable_queue q" and "unat pr < length (m_queue_list q)"
    and "distinct ids" and "\<forall>i \<in> set ids. map_find (m_msg_map q) i = None"
    and "length (m_msg_map q) + length ids \<le> unat (m_capacity q)"
  shows "pops es (pushes pr clock 0 ids q) =
    take (length es) (concat ((lane_ids q)[unat pr := lane_ids q ! unat pr @ ids]))"
proof -
  have ok: "queue_ok q" using assms(1) by (rule reachable_ok)
  show ?thesis
    using pops_lanes[OF queue_ok_pushes[OF ok]] pushes_lanes[OF ok all_acceptedI[OF ok assms(2-5)]] by simp
qed

lemma fifo_within_priority_witness:
  "pops [(1, 1), (2, 2), (3, 3), (4, 4)] (pushes 0 (\<lambda>_. (0, 0)) 0 [''y'', ''x''] demo_two) = [''y'', ''x'', ''a'', ''b'']"
proof -
  have d: "unat (0 :: u8) < length (m_queue_list demo_two)" "lane_ids demo_two = [[], [''a'', ''b'']]"
    "\<forall>i \<in> set [''y'', ''x'']. map_find (m_msg_map demo_two) i = None"
    "length (m_msg_map demo_two) + length [''y'', ''x''] \<le> unat (m_capacity demo_two)"
    by code_simp+
  have "distinct [''y'', ''x'']" by simp
  from fifo_within_priority[OF demo_reachable(2) d(1) this d(3,4), of "[(1, 1), (2, 2), (3, 3), (4, 4)]" "\<lambda>_. (0, 0)"]
  show ?thesis by (simp add: d(2))
qed

section \<open>Acknowledgement\<close>

lemma ackImpl_requeue:
  assumes "map_find (m_msg_map q) i = Some p" and "msg_token (message (entry q p)) = tok"
    and "state (entry q p) = MSG_RUNNING"
  shows "ackImpl q i tok True 0 now = (Return (), enqueue_front p (priority (entry q p))
         (set_entry p ((entry q p)\<lparr> boosted := False, message := (message (entry q p))\<lparr> msg_token := [] \<rparr>,
            state := MSG_QUEUED, state_ts := now \<rparr>) q))"
    and "d \<noteq> 0 \<Longrightarrow> ackImpl q i tok True d now = (Return (), insertDelayedMsg
         (set_entry p ((entry q p)\<lparr> boosted := False, message := (message (entry q p))\<lparr> msg_token := [] \<rparr> \<rparr>) q)
         p (now + milliseconds d))"
  using assms by (simp_all add: ackImpl_def Let_def set_entry_def)

text \<open>C7. \<open>ack\<close> is accepted exactly for a message that is running, under its identifier and its
  current token; any other call throws and changes nothing. An empty token is never accepted.\<close>

theorem ack_accepts_iff:
  assumes "reachable_queue q"
  shows "(fst (ack q i tok rq d now) = Return () \<longleftrightarrow>
      tok \<noteq> [] \<and> (\<exists>p \<in> live q. msg_id (message (entry q p)) = i \<and>
        msg_token (message (entry q p)) = tok \<and> state (entry q p) = MSG_RUNNING)) \<and>
    (fst (ack q i tok rq d now) = Return () \<or>
     (\<exists>m. ack q i tok rq d now = (Throw (runtime_error m), q)))"
proof -
  have ok: "queue_ok q" using assms by (rule reachable_ok)
  have found: "(\<exists>p \<in> live q. msg_id (message (entry q p)) = i \<and> P p) \<longleftrightarrow>
      (\<exists>p. map_find (m_msg_map q) i = Some p \<and> P p)" for P
    using live_find[OF ok] find_live[OF ok] find_id[OF ok] by metis
  show ?thesis
    unfolding found ack_def
    by (cases rule: ackImpl_cases[of q i tok rq d now])
      (use wf_token[OF ok] find_live[OF ok] in auto)
qed

lemma ack_accepts_iff_witness:
  "fst (ack demo_run ''b'' [] False 0 20) \<noteq> Return ()"
  using ack_accepts_iff[OF demo_reachable(3), of "''b''" "[]" False 0 20] by simp

text \<open>C8. A message that was received can be acknowledged with the identifier and the token it
  came with; it is then gone, its entry is free, and no second acknowledgement of it, with any
  token, is accepted.\<close>

theorem popped_message_acked_once:
  assumes "reachable_queue q" and "pop q now rnd = (Return p, q1)"
    and "i = msg_id (message (entry q1 p))" and "tok = msg_token (message (entry q1 p))"
  shows "\<exists>q2. ack q1 i tok False d now1 = (Return (), q2) \<and>
    map_find (m_msg_map q2) i = None \<and> p \<in> set (m_msg_pool q2) \<and>
    (\<forall>tok' rq d' now2. ack q2 i tok' rq d' now2 =
       (Throw (runtime_error ''No message found matching ID''), q2))"
proof -
  have ok: "queue_ok q" using assms(1) by (rule reachable_ok)
  have ok1: "queue_ok q1" using queue_ok_popImpl[OF ok, of now rnd] assms(2) by (simp add: pop_def)
  have ne: "m_count_queued q \<noteq> 0" using assms(2) by (auto simp: pop_def popImpl_def)
  from pop_available[OF ok this] obtain p' qs where pf: "pop_first (m_queue_list q) = Some (p', qs)" by blast
  note res = popImpl_nonempty[OF pf ne, of now rnd]
  have [simp]: "p' = p" using assms(2) res by (simp add: pop_def)
  have live: "p \<in> live q1" using pop_first_live(1)[OF ok pf] assms(2) res by (auto simp: pop_def live_def)
  have run: "state (entry q1 p) = MSG_RUNNING"
    using assms(2) res wf_live_heap[OF ok pop_first_live(1)[OF ok pf]] by (auto simp: pop_def entry_set_entry)
  have find: "map_find (m_msg_map q1) i = Some p" using live_find[OF ok1 live] assms(3) by simp
  have "ack q1 i tok False d now1 = (Return (), q1\<lparr> m_msg_pool := m_msg_pool q1 @ [p],
      m_msg_map := map_erase i (m_msg_map q1) \<rparr>)"
    using find run assms(4) by (simp add: ack_def ackImpl_def)
  then show ?thesis by (simp add: map_find_erase ack_def ackImpl_def)
qed

lemma popped_message_acked_once_witness:
  "\<exists>q2. ack demo_run ''a'' ''7'' False 0 20 = (Return (), q2) \<and> map_find (m_msg_map q2) ''a'' = None"
proof -
  have "fst (pop demo_two 10 7) = Return 0" by code_simp
  then have p: "pop demo_two 10 7 = (Return 0, demo_run)" by (simp add: demo_run_def prod_eq_iff)
  show ?thesis
    using popped_message_acked_once[OF demo_reachable(2) p, of "''a''" "''7''" 0 20] by (auto simp: demo_running)
qed

text \<open>C9. Requeueing: an accepted acknowledgement with requeue clears the token and the boost. A
  message requeued without delay is queued last in the lane of its own priority; one requeued
  with a delay waits until that many milliseconds after the time of the call.\<close>

theorem ack_requeues:
  assumes "reachable_queue q" and "map_find (m_msg_map q) i = Some p"
    and "state (entry q p) = MSG_RUNNING" and "msg_token (message (entry q p)) = tok"
    and "ack q i tok True d now = (r, q')"
  shows "r = Return () \<and> map_find (m_msg_map q') i = Some p \<and>
    \<not> boosted (entry q' p) \<and> msg_token (message (entry q' p)) = [] \<and>
    fail_count (entry q' p) = fail_count (entry q p) \<and>
    (if d = 0 then state (entry q' p) = MSG_QUEUED \<and> state_ts (entry q' p) = now \<and>
        lane_ids q' = (lane_ids q)[unat (priority (entry q p)) :=
          lane_ids q ! unat (priority (entry q p)) @ [i]]
      else state (entry q' p) = MSG_DELAYED \<and> state_ts (entry q' p) = now + milliseconds d \<and>
        lane_ids q' = lane_ids q)"
proof -
  have ok: "queue_ok q" using assms(1) by (rule reachable_ok)
  note live = find_live[OF ok assms(2)]
  have lt: "p < length (m_heap q)" using wf_live_heap[OF ok live] .
  have id: "id_of q p = i" using find_id[OF ok assms(2)] by (simp add: id_of_def)
  show ?thesis
  proof (cases "d = 0")
    case True
    let ?e = "(entry q p)\<lparr> boosted := False, message := (message (entry q p))\<lparr> msg_token := [] \<rparr>,
        state := MSG_QUEUED, state_ts := now \<rparr>"
    have q': "r = Return ()" "q' = enqueue_front p (priority (entry q p)) (set_entry p ?e q)"
      using ackImpl_requeue(1)[OF assms(2,4,3), of now] assms(5) True by (simp_all add: ack_def)
    have ids: "id_of q' = id_of q" using lt by (simp add: q' id_of_def entry_set_entry fun_eq_iff)
    have ql: "m_queue_list q' = push_front (unat (priority (entry q p))) p (m_queue_list q)" by (simp add: q')
    have "lane_ids q' = (lane_ids q)[unat (priority (entry q p)) :=
          lane_ids q ! unat (priority (entry q p)) @ [i]]"
      using wf_priority[OF ok live] id by (simp add: lane_ids_def ids ql push_front_def map_update)
    with True lt assms(2) show ?thesis by (simp add: q' entry_set_entry)
  next
    case False
    let ?e = "(entry q p)\<lparr> boosted := False, message := (message (entry q p))\<lparr> msg_token := [] \<rparr> \<rparr>"
    have q': "r = Return ()" "q' = insertDelayedMsg (set_entry p ?e q) p (now + milliseconds d)"
      using ackImpl_requeue(2)[OF assms(2,4,3) False, of now] assms(5) by (simp_all add: ack_def)
    have ids: "id_of q' = id_of q"
      using lt by (simp add: q' id_of_def entry_insertDelayedMsg entry_set_entry fun_eq_iff)
    have ql: "m_queue_list q' = m_queue_list q" by (simp add: q')
    have "lane_ids q' = lane_ids q" by (simp add: lane_ids_def ids ql)
    with False lt assms(2) show ?thesis by (simp add: q' entry_insertDelayedMsg entry_set_entry)
  qed
qed

lemma ack_requeues_witness:
  "state (entry (snd (ack demo_run ''a'' ''7'' True 3 20)) 0) = MSG_DELAYED"
proof -
  have "ack demo_run ''a'' ''7'' True 3 20
      = (fst (ack demo_run ''a'' ''7'' True 3 20), snd (ack demo_run ''a'' ''7'' True 3 20))" by simp
  from ack_requeues[OF demo_reachable(3) demo_find demo_running(1,2) this] show ?thesis by simp
qed

section \<open>Time-outs, retries and starvation\<close>

text \<open>What an acknowledgement time-out or starvation is, at the time of a poll.\<close>

definition expired :: "Queue \<Rightarrow> timestamp \<Rightarrow> ptr \<Rightarrow> bool" where
  "expired q now p \<longleftrightarrow> state (entry q p) = MSG_RUNNING \<and> m_fail_timeout q \<noteq> 0 \<and>
     state_ts (entry q p) < now - milliseconds (m_fail_timeout q)"

definition starving :: "Queue \<Rightarrow> timestamp \<Rightarrow> ptr \<Rightarrow> bool" where
  "starving q now p \<longleftrightarrow> state (entry q p) = MSG_QUEUED \<and> priority (entry q p) > 0 \<and>
     \<not> boosted (entry q p) \<and> state_ts (entry q p) < now - milliseconds (m_boost_timeout q)"

lemma monitor_poll_entry:
  assumes ok: "queue_ok q" and run: "m_run q" and p: "p \<in> live q"
  shows "entry (snd (monitor_poll q now)) p =
      (if expired q now p then
         (if ucast (fail_count (entry q p) + 1) = m_max_retries q
          then (entry q p)\<lparr> fail_count := fail_count (entry q p) + 1, state := MSG_FAILED \<rparr>
          else (entry q p)\<lparr> fail_count := fail_count (entry q p) + 1, state := MSG_QUEUED,
                 message := (message (entry q p))\<lparr> msg_token := [] \<rparr> \<rparr>)
       else if starving q now p then (entry q p)\<lparr> boosted := True \<rparr>
       else entry q p)"
  using monitor_poll_parts[OF run, of now p] monitor_scan_entry[OF ok, of now p] p
  by (simp add: scanned_def expired_def starving_def)

lemma monitor_poll_map: "queue_ok q \<Longrightarrow> m_run q \<Longrightarrow> m_msg_map (snd (monitor_poll q now)) = m_msg_map q"
  using monitor_poll_parts[of q now] monitor_scan_ok[of q now] by simp



text \<open>C11. The retry limit: a message is failed only with exactly \<open>m_max_retries\<close> time-outs counted;
  as long as it is not, it has fewer (unless the limit is 0).\<close>

theorem fails_at_limit:
  assumes "reachable_queue q" and "p \<in> live q"
  shows "if state (entry q p) = MSG_FAILED then unat (fail_count (entry q p)) = unat (m_max_retries q)
    else m_max_retries q = 0 \<or> unat (fail_count (entry q p)) < unat (m_max_retries q)"
proof -
  have "retry_ok (m_max_retries q) (entry q p)"
    using reachable_counters[OF assms(1)] assms(2) by (simp add: counters_ok_def retries_ok_def)
  then show ?thesis
    using unat_ucast_u8[of "fail_count (entry q p)"]
    by (auto simp: retry_ok_def word_less_nat_alt split: if_splits)
qed

lemma fails_at_limit_witness: "unat (fail_count (entry demo_run 0)) < 2"
proof -
  have "0 \<in> live demo_run" "m_max_retries demo_run = 2" by code_simp+
  with fails_at_limit[OF demo_reachable(3), of 0] show ?thesis by (simp add: demo_running)
qed

text \<open>C12. The counter of time-outs is 8 bits wide while the limit is a \<open>size_t\<close>: with a limit above
  255 no message ever fails, whatever the number of its time-outs.\<close>

theorem never_fails_above_255:
  assumes "reachable_queue q" and "unat (m_max_retries q) > 255"
  shows "getFailed q = [] \<and> m_count_failed q = 0"
proof -
  have ok: "queue_ok q" using assms(1) by (rule reachable_ok)
  have none: "state (entry q p) \<noteq> MSG_FAILED" if "p \<in> live q" for p
  proof -
    have "retry_ok (m_max_retries q) (entry q p)"
      using reachable_counters[OF assms(1)] that by (simp add: counters_ok_def retries_ok_def)
    moreover have "unat (fail_count (entry q p)) < 256" using unsigned_less[of "fail_count (entry q p)"] by simp
    ultimately show ?thesis
      using assms(2) unat_ucast_u8[of "fail_count (entry q p)"] by (auto simp: retry_ok_def)
  qed
  then have "with_state q MSG_FAILED = {}" by (auto simp: with_state_def)
  then have "m_count_failed q = 0"
    using unat_count_failed[OF ok] by (metis card.empty unat_eq_zero)
  moreover have "getFailed q = []"
    using none by (force simp: getFailed_def filter_empty_conv live_def)
  ultimately show ?thesis by simp
qed

lemma never_fails_above_255_witness:
  "getFailed (snd (push (Queue_create 1 1 1 300 0 0 False) ''a'' 0 0 0 0)) = []"
proof -
  let ?q = "snd (push (Queue_create 1 1 1 300 0 0 False) ''a'' 0 0 0 0)"
  have "reachable_queue ?q" by (intro reachable_push reachable_create)
  moreover have "unat (m_max_retries ?q) > 255" by code_simp
  ultimately show ?thesis using never_fails_above_255[of ?q] by simp
qed

text \<open>C13. After a time-out the token that the slow consumer holds is dead: its late
  acknowledgement is rejected and changes nothing, whether the message was queued again or
  has failed.\<close>

theorem expired_token_rejected:
  assumes "reachable_queue q" and "map_find (m_msg_map q) i = Some p" and "expired q now p"
    and "tok = msg_token (message (entry q p))" and "monitor_poll q now = (goes_on, q')"
  shows "\<exists>m. ack q' i tok rq d now' = (Throw (runtime_error m), q')"
proof -
  have ok: "queue_ok q" and run: "m_run q" using assms(1) reachable_ok reachable_run by auto
  note live = find_live[OF ok assms(2)]
  have "tok \<noteq> []" using wf_token[OF ok live] assms(3,4) by (simp add: expired_def)
  moreover have "map_find (m_msg_map q') i = Some p"
    using monitor_poll_map[OF ok run, of now] assms(2,5) by simp
  ultimately show ?thesis
    using monitor_poll_entry[OF ok run live, of now] assms(3,4,5)
    by (auto simp: ack_def ackImpl_def)
qed

lemma expired_token_rejected_witness:
  "\<exists>m. ack (snd (monitor_poll demo_run 2000000000)) ''a'' ''7'' False 0 2000000001
     = (Throw (runtime_error m), snd (monitor_poll demo_run 2000000000))"
proof -
  have m: "monitor_poll demo_run 2000000000
      = (fst (monitor_poll demo_run 2000000000), snd (monitor_poll demo_run 2000000000))" by simp
  have "expired demo_run 2000000000 0" by code_simp
  from expired_token_rejected[OF demo_reachable(3) demo_find this _ m] show ?thesis
    by (simp add: demo_running)
qed

text \<open>C15. The monitor never finds an inconsistency: on a reachable queue a poll does not call the
  error callback, so the branch for a message missing from its deque is dead.\<close>

theorem monitor_reports_nothing:
  assumes "reachable_queue q"
  shows "m_err_cb (snd (monitor_poll q now)) = m_err_cb q"
  using monitor_poll_parts[OF reachable_run[OF assms], of now] monitor_scan_err[OF reachable_ok[OF assms], of now]
  by simp

lemma monitor_reports_nothing_witness: "m_err_cb (snd (monitor_poll demo_run 2000000000)) = Some []"
  using monitor_reports_nothing[OF demo_reachable(3), of 2000000000]
  by (simp add: demo_run_def demo_two_def demo_empty_def) code_simp





section \<open>Delayed messages\<close>

text \<open>C33. One round of the delay thread releases exactly the messages that are due: each becomes
  queued with the current time, all others keep their entry, and the delay set keeps those
  that are not due.\<close>

theorem delay_poll_releases_due:
  assumes "reachable_queue q" and "delay_poll q now = (goes_on, q')"
  shows "goes_on \<and> m_msg_map q' = m_msg_map q \<and>
    (\<forall>p. entry q' p = (if p \<in> set (m_msg_delay q) \<and> state_ts (entry q p) \<le> now
       then (entry q p)\<lparr> state := MSG_QUEUED, state_ts := now \<rparr> else entry q p)) \<and>
    m_msg_delay q' = filter (\<lambda>p. now < state_ts (entry q p)) (m_msg_delay q)"
  using release_due_entry[OF reachable_ok[OF assms(1)], of now] reachable_run[OF assms(1)] assms(2)
  by (auto simp: delay_poll_def)

lemma delay_poll_releases_due_witness:
  "m_msg_delay (snd (delay_poll demo_delay 4500000)) = [2]"
proof -
  have d: "delay_poll demo_delay 4500000
      = (fst (delay_poll demo_delay 4500000), snd (delay_poll demo_delay 4500000))" by simp
  have "filter (\<lambda>p. 4500000 < state_ts (entry demo_delay p)) (m_msg_delay demo_delay) = [2]" by code_simp
  with delay_poll_releases_due[OF demo_reachable(4) d] show ?thesis by simp
qed

text \<open>C34. Released messages jump the queue: they go to the head of their lane, in front of every
  message that was already waiting there, and among themselves in reverse order of their due
  times.\<close>

theorem released_messages_jump_queue:
  assumes "reachable_queue q" and "i < length (m_queue_list q)" and "delay_poll q now = (goes_on, q')"
  shows "lane_ids q' ! i =
    map (\<lambda>p. msg_id (message (entry q p)))
      (rev (filter (\<lambda>p. state_ts (entry q p) \<le> now \<and> unat (priority (entry q p)) = i) (m_msg_delay q)))
    @ lane_ids q ! i"
  using release_due_lanes[OF reachable_ok[OF assms(1)] assms(2), of now] reachable_run[OF assms(1)] assms(3)
  by (auto simp: delay_poll_def due_def id_of_def)

lemma released_messages_jump_queue_witness:
  "lane_ids (snd (delay_poll demo_delay 9000000)) ! 0 = [''c'', ''d'']"
proof -
  have d: "delay_poll demo_delay 9000000
      = (fst (delay_poll demo_delay 9000000), snd (delay_poll demo_delay 9000000))" by simp
  have "0 < length (m_queue_list demo_delay)" by code_simp
  from released_messages_jump_queue[OF demo_reachable(4) this d]
  have "lane_ids (snd (delay_poll demo_delay 9000000)) ! 0 =
    map (\<lambda>p. msg_id (message (entry demo_delay p)))
      (rev (filter (\<lambda>p. state_ts (entry demo_delay p) \<le> 9000000 \<and> unat (priority (entry demo_delay p)) = 0)
         (m_msg_delay demo_delay)))
    @ lane_ids demo_delay ! 0" .
  also have "\<dots> = [''c'', ''d'']" by code_simp
  finally show ?thesis .
qed

section \<open>Capacity and counts\<close>

text \<open>C35. What \<open>push\<close> answers: it rejects a priority outside the configured range, a known
  identifier and a full queue, in this order and without any change; otherwise it accepts.\<close>

theorem push_outcomes:
  assumes "reachable_queue q"
  shows "push q i pr d now now' =
    (if unat pr \<ge> length (m_queue_list q) then (Throw (runtime_error ''Invalid queue priority''), q)
     else if map_find (m_msg_map q) i \<noteq> None then (Throw (runtime_error ''Duplicate message ID''), q)
     else if card (live q) = unat (m_capacity q) then (Throw (length_error ''Queue capacity exceeded''), q)
     else (Return (), snd (push q i pr d now now')))"
proof -
  have ok: "queue_ok q" using assms by (rule reachable_ok)
  have "word_of_nat (length (m_msg_map q)) = m_capacity q \<longleftrightarrow> card (live q) = unat (m_capacity q)"
    using unat_of_nat_le[OF wf_size[OF ok]] card_live[OF ok] by (metis word_unat_eq_iff)
  moreover have "fst (push q i pr d now now') = Return () \<longleftrightarrow>
      unat pr < length (m_queue_list q) \<and> map_find (m_msg_map q) i = None \<and> card (live q) < unat (m_capacity q)"
    using push_accept_iff[OF ok] card_live[OF ok] by simp
  moreover have "card (live q) \<le> unat (m_capacity q)" using wf_size[OF ok] card_live[OF ok] by simp
  ultimately show ?thesis by (auto simp: push_def prod_eq_iff)
qed

lemma push_outcomes_witness:
  "push demo_run ''b'' 1 0 5 5 = (Throw (runtime_error ''Duplicate message ID''), demo_run)"
proof -
  have "map_find (m_msg_map demo_run) ''b'' \<noteq> None" "\<not> length (m_queue_list demo_run) \<le> unat (1 :: u8)"
    by code_simp+
  then show ?thesis
    using push_outcomes[OF demo_reachable(3), of "''b''" 1 0 5 5] by (simp only: if_True if_False not_False_eq_True simp_thms)
qed

text \<open>C36. A new message: an accepted push stores a fresh entry under the identifier, without a
  token and with no time-outs, queued last in the lane of its priority or, with a delay,
  waiting until that many milliseconds after the call. The other messages do not change.\<close>

theorem push_stores:
  assumes "reachable_queue q" and "push q i pr d now now' = (Return (), q')"
  shows "\<exists>p. p \<notin> live q \<and> live q' = insert p (live q) \<and> map_find (m_msg_map q') = (map_find (m_msg_map q))(i \<mapsto> p) \<and>
    (\<forall>x \<in> live q. entry q' x = entry q x) \<and>
    entry q' p = \<lparr> priority = pr, boosted = False, fail_count = 0,
      state = (if d = 0 then MSG_QUEUED else MSG_DELAYED),
      state_ts = (if d = 0 then now else now' + milliseconds d),
      message = \<lparr> msg_id = i, msg_token = [] \<rparr> \<rparr> \<and>
    lane_ids q' = (if d = 0 then (lane_ids q)[unat pr := lane_ids q ! unat pr @ [i]] else lane_ids q)"
proof -
  have ok: "queue_ok q" using assms(1) by (rule reachable_ok)
  have acc: "fst (push q i pr d now now') = Return ()" using assms(2) by simp
  obtain p h l where P: "map_find (m_msg_map q) i = None" "p \<notin> live q" "p < length h"
      "h ! p = MsgEntry_new i pr now" "\<And>x. x \<in> live q \<Longrightarrow> h ! x = m_heap q ! x"
    and res: "push q i pr d now now' = (Return (),
       (let q2 = q\<lparr> m_heap := h, m_msg_pool := l, m_msg_map := map_put i p (m_msg_map q) \<rparr>
        in if d \<noteq> 0 then insertDelayedMsg q2 p (now' + milliseconds d) else enqueue_front p pr q2))"
    using push_accepted[OF ok acc] by metis
  let ?q = "q\<lparr> m_heap := h, m_msg_pool := l, m_msg_map := map_put i p (m_msg_map q) \<rparr>"
  have q': "q' = (if d \<noteq> 0 then insertDelayedMsg ?q p (now' + milliseconds d) else enqueue_front p pr ?q)"
    using res assms(2) by (simp add: Let_def)
  have live: "live q' = insert p (live q)"
    using smap.set_entries_put[OF wf_map_ok[OF ok] P(1)] by (simp add: q' live_def)
  have mp: "map_find (m_msg_map q') = (map_find (m_msg_map q))(i \<mapsto> p)"
    using smap.find_put[OF wf_map_ok[OF ok]] by (simp add: q')
  have old: "\<forall>x \<in> live q. entry q' x = entry q x"
  proof
    fix x assume x: "x \<in> live q"
    then have "x \<noteq> p" using P(2) by blast
    with P(5)[OF x] show "entry q' x = entry q x" by (simp add: q' entry_def)
  qed
  have ne: "entry q' p = \<lparr> priority = pr, boosted = False, fail_count = 0,
      state = (if d = 0 then MSG_QUEUED else MSG_DELAYED),
      state_ts = (if d = 0 then now else now' + milliseconds d),
      message = \<lparr> msg_id = i, msg_token = [] \<rparr> \<rparr>"
    using P(3,4) by (simp add: q' entry_def MsgEntry_new_def)
  have "lane_ids q' = (if d = 0 then (lane_ids q)[unat pr := lane_ids q ! unat pr @ [i]] else lane_ids q)"
  proof (cases "d = 0")
    case True
    then show ?thesis using push_lane[OF ok, of i pr now now'] assms(2) by simp
  next
    case False
    then have "lane_ids q' = lane_ids q"
      using old queued_live[OF ok] by (intro lane_ids_cong) (auto simp: q' id_of_def)
    with False show ?thesis by simp
  qed
  with P(2) live mp old ne show ?thesis by (intro exI[of _ p]) blast
qed

lemma push_stores_witness:
  "lane_ids (snd (push demo_two ''z'' 1 0 5 5)) = [[], [''a'', ''b'', ''z'']]"
proof -
  have "fst (push demo_two ''z'' 1 0 5 5) = Return ()" by code_simp
  then have "push demo_two ''z'' 1 0 5 5 = (Return (), snd (push demo_two ''z'' 1 0 5 5))" by (simp add: prod_eq_iff)
  from push_stores[OF demo_reachable(2) this]
  have "lane_ids (snd (push demo_two ''z'' 1 0 5 5)) = (lane_ids demo_two)[unat (1 :: u8) := lane_ids demo_two ! unat (1 :: u8) @ [''z'']]"
    by auto
  also have "lane_ids demo_two = [[], [''a'', ''b'']]" by code_simp
  finally show ?thesis by simp
qed

section \<open>Failed messages\<close>

text \<open>C37. The three counts add up to the capacity, without wrap-around of the 64-bit
  subtractions, and count what they say: messages that have not failed, failed ones, and the
  room that is left.\<close>

theorem counts_add_up:
  assumes "reachable_queue q" and "getCounts q = (active, failed, free)"
  shows "unat active + unat failed + unat free = unat (getCapacity q) \<and>
    unat failed = card {p \<in> live q. state (entry q p) = MSG_FAILED} \<and>
    unat active = card {p \<in> live q. state (entry q p) \<noteq> MSG_FAILED}"
  by (rule getCounts_cards[OF reachable_ok[OF assms(1)] assms(2)])

lemma counts_add_up_witness:
  "unat (fst (getCounts demo_run)) + unat (snd (snd (getCounts demo_run))) = 4"
proof -
  have "getCounts demo_run = (2, 0, 2)" "getCapacity demo_run = 4" by code_simp+
  with counts_add_up[OF demo_reachable(3), of 2 0 2] show ?thesis by simp
qed

text \<open>C38. \<open>getFailed\<close> returns the identifiers of exactly the failed messages, each once, in
  ascending order, and as many as the failed counter says.\<close>

theorem getFailed_exact:
  assumes "reachable_queue q"
  shows "sorted_wrt (<) (getFailed q) \<and>
    set (getFailed q) = (\<lambda>p. msg_id (message (entry q p))) ` {p \<in> live q. state (entry q p) = MSG_FAILED} \<and>
    length (getFailed q) = unat (m_count_failed q)"
proof -
  have ok: "queue_ok q" using assms by (rule reachable_ok)
  have "{i. failed_id q i} = (\<lambda>p. msg_id (message (entry q p))) ` {p \<in> live q. state (entry q p) = MSG_FAILED}"
    using failed_id_iff[OF ok] by (auto simp: with_state_def id_of_def)
  then show ?thesis using set_getFailed[OF ok] sorted_getFailed[OF ok] length_getFailed[OF ok] by simp
qed

definition demo_failed :: Queue where
  "demo_failed = snd (monitor_poll (snd (pop (snd (pop (snd (push (snd (push
     (Queue_create 1 4 1000 1 5000 250 False) ''a'' 0 0 0 0)) ''b'' 0 0 0 0)) 10 7)) 10 8)) 2000000000)"

lemma demo_failed_reachable: "reachable_queue demo_failed"
  unfolding demo_failed_def by (intro reachable_pop reachable_push reachable_monitor reachable_create)

lemma getFailed_exact_witness: "length (getFailed demo_failed) = 2"
proof -
  have "m_count_failed demo_failed = 2" by code_simp
  with getFailed_exact[OF demo_failed_reachable] show ?thesis by simp
qed

text \<open>C39. \<open>eraseFailed\<close> removes exactly the failed messages among the given identifiers and
  returns them, each once, in the order of the argument; unknown and active messages are
  ignored, all other messages stay, and the failed counter drops by the number returned.\<close>

theorem eraseFailed_exact:
  assumes "reachable_queue q" and "eraseFailed q is = (ids, q')"
  shows "ids = firsts (filter (failed_id q) is) \<and>
    map_find (m_msg_map q') = (\<lambda>i. if i \<in> set ids then None else map_find (m_msg_map q) i) \<and>
    (\<forall>p. entry q' p = entry q p) \<and>
    unat (m_count_failed q') + length ids = unat (m_count_failed q) \<and>
    reachable_queue q'"
proof -
  have ok: "queue_ok q" using assms(1) by (rule reachable_ok)
  have "reachable_queue q'" using assms(1) step_erase[OF assms(2)] by (rule reachable_step)
  then show ?thesis
    using eraseFailed_result[OF ok, of "is"] eraseFailed_count[OF ok, of "is"] assms(2) by auto
qed

lemma eraseFailed_exact_witness:
  "unat (m_count_failed (snd (eraseFailed demo_failed [''b'', ''x'', ''b'']))) = 1"
proof -
  have e: "eraseFailed demo_failed [''b'', ''x'', ''b'']
      = (fst (eraseFailed demo_failed [''b'', ''x'', ''b'']), snd (eraseFailed demo_failed [''b'', ''x'', ''b'']))"
    by simp
  have "fst (eraseFailed demo_failed [''b'', ''x'', ''b'']) = [''b'']" "unat (m_count_failed demo_failed) = 2"
    by code_simp+
  with eraseFailed_exact[OF demo_failed_reachable e] show ?thesis by simp
qed

text \<open>C40. Memory is bounded: the entries ever allocated, in use or pooled, number at most the
  capacity, and each is in use or in the pool, never both and never lost.\<close>

theorem entries_bounded:
  assumes "reachable_queue q"
  shows "length (m_heap q) \<le> unat (m_capacity q) \<and>
    length (m_msg_map q) + length (m_msg_pool q) = length (m_heap q) \<and>
    live q \<inter> set (m_msg_pool q) = {}"
proof -
  have ok: "queue_ok q" using assms by (rule reachable_ok)
  have d: "distinct (map snd (m_msg_map q) @ m_msg_pool q)"
    and s: "set (map snd (m_msg_map q) @ m_msg_pool q) = {..<length (m_heap q)}"
    using ok by (auto simp: queue_ok_def wf_store_def live_def)
  have "length (map snd (m_msg_map q) @ m_msg_pool q) = length (m_heap q)"
    using distinct_card[OF d] s by simp
  moreover have "heap_ok q" using reachable_counters[OF assms] by (simp add: counters_ok_def)
  ultimately show ?thesis using d by (auto simp: heap_ok_def live_def)
qed

lemma entries_bounded_witness: "length (m_heap demo_delay) \<le> 4"
proof -
  have "m_capacity demo_delay = 4" by code_simp
  with entries_bounded[OF demo_reachable(4)] show ?thesis by simp
qed

section \<open>The specification\<close>

text \<open>C2. Refinement: every run of the queue, with any interleaving of its operations and threads, is
  a run of the life cycle of messages: a message is ready, held under one token, due later or
  dead, and each operation has exactly the effect on these lives that the specification allows.\<close>

theorem queue_refines_life_cycle:
  assumes "reachable_queue q" and "run queue_step q evs q'"
  shows "run service_step (service_of q) evs (service_of q')"
  by (rule run_life[OF assms])

lemma queue_refines_life_cycle_witness:
  "\<exists>q'. run service_step (service_of (Queue_create 2 4 1000 2 5000 250 False)) [Push ''a'' 1 0 0 0 (Return ())] (service_of q') \<and>
     sv_life (service_of q') ''a'' = Some Ready"
proof -
  let ?q = "Queue_create 2 4 1000 2 5000 250 False"
  let ?q' = "snd (push ?q ''a'' 1 0 0 0)"
  have "fst (push ?q ''a'' 1 0 0 0) = Return ()" "sv_life (service_of ?q') ''a'' = Some Ready" by code_simp+
  moreover from this(1) have "push ?q ''a'' 1 0 0 0 = (Return (), ?q')" by (metis prod.collapse)
  then have "queue_step ?q (Push ''a'' 1 0 0 0 (Return ())) ?q'" by (rule step_push)
  then have "run queue_step ?q [Push ''a'' 1 0 0 0 (Return ())] ?q'" by (rule run.run_Cons) (rule run.run_Nil)
  ultimately show ?thesis using queue_refines_life_cycle[OF reachable_create, of 2 4 1000 2 5000 250 False] by blast
qed

text \<open>C14. A failed message stays failed: after any further operations of any threads it is still there
  and still failed, unless one of them erased it.\<close>

theorem dead_until_erased:
  assumes "reachable_queue q" and "run queue_step q evs q'" and "lives q i = Some Dead"
    and "\<forall>is ids. Erase_failed is ids \<in> set evs \<longrightarrow> i \<notin> set is"
  shows "lives q' i = Some Dead"
  using dead_run[OF run_life[OF assms(1,2)] _ assms(4)] assms(3) by (simp add: service_of_def)

lemma dead_until_erased_witness:
  "lives (snd (monitor_poll demo_failed 9000000000)) ''a'' = Some Dead"
proof -
  let ?q = "snd (monitor_poll demo_failed 9000000000)"
  have "lives demo_failed ''a'' = Some Dead" "fst (monitor_poll demo_failed 9000000000)" by code_simp+
  moreover from this(2) have "monitor_poll demo_failed 9000000000 = (True, ?q)" by (simp add: prod_eq_iff)
  then have "queue_step demo_failed (Monitor_poll 9000000000) ?q" by (rule step_monitor)
  then have "run queue_step demo_failed [Monitor_poll 9000000000] ?q" by (rule run.run_Cons) (rule run.run_Nil)
  ultimately show ?thesis
    using dead_until_erased[OF demo_failed_reachable, of "[Monitor_poll 9000000000]" ?q "''a''"] by simp
qed

end
