(* ===== verification/Queue_Destroy.thy ===== *)
theory Queue_Destroy
  imports Queue_Service
begin

text \<open>
  The destructor of the queue: it stops the two threads, waits for their end and frees the
  entries of the pool.
\<close>

definition Queue_stop :: "Queue \<Rightarrow> Queue" where
  "Queue_stop q =
     q\<lparr> m_run := False, m_mon_cv := notify_one (m_mon_cv q), m_delay_cv := notify_one (m_delay_cv q) \<rparr>"

text \<open>The entries that are deleted, in their order; the threads have ended before.\<close>

definition Queue_destroy :: "Queue \<Rightarrow> ptr list" where
  "Queue_destroy q = m_msg_pool (Queue_stop q)"

text \<open>Both threads leave their loops in the next round and change nothing any more.\<close>

lemma threads_end:
  "monitor_poll (Queue_stop q) now = (False, Queue_stop q)" "delay_poll (Queue_stop q) now = (False, Queue_stop q)"
  by (simp_all add: monitor_poll_def delay_poll_def Queue_stop_def)

text \<open>
  No entry is deleted twice, and the entries that are never deleted are exactly those of the
  messages that the queue still knows.
\<close>

lemma destroy_leaks_live:
  assumes "reachable_queue q"
  shows "distinct (Queue_destroy q) \<and> {..<length (m_heap q)} - set (Queue_destroy q) = live q"
proof -
  have "queue_ok q" using assms by (rule reachable_ok)
  then have "distinct (map snd (m_msg_map q) @ m_msg_pool q)"
    and "set (map snd (m_msg_map q) @ m_msg_pool q) = {..<length (m_heap q)}"
    by (auto simp: queue_ok_def wf_store_def live_def)
  then show ?thesis by (auto simp: Queue_destroy_def Queue_stop_def live_def)
qed

end
