(* ===== verification/Double.thy ===== *)
theory Double
  imports Prelude
begin

text \<open>
  The floating-point numbers of the program: IEEE binary64 as 64-bit words, the conversion
  \<open>strtod\<close> of the C library in the "C" locale (decimal and hexadecimal numbers, infinities and
  NaNs, correctly rounded), and the conversions from \<open>double\<close> that the server uses. Converting
  a value that does not fit the target integer type is undefined behaviour, so those
  conversions can be \<open>Undefined\<close>.
\<close>

type_synonym double = u64

section \<open>Parts of a number\<close>

definition dbl_exponent :: "double \<Rightarrow> int" where
  "dbl_exponent d = take_bit 11 (drop_bit 52 (uint d))"

definition dbl_fraction :: "double \<Rightarrow> int" where
  "dbl_fraction d = take_bit 52 (uint d)"

definition dbl_negative :: "double \<Rightarrow> bool" where
  "dbl_negative d \<longleftrightarrow> uint d \<ge> 2 ^ 63"

definition dbl_finite :: "double \<Rightarrow> bool" where
  "dbl_finite d \<longleftrightarrow> dbl_exponent d < 2047"

text \<open>The value of a finite number is its significand times \<open>2 ^ dbl_scale\<close>.\<close>

definition dbl_significand :: "double \<Rightarrow> int" where
  "dbl_significand d = (if dbl_exponent d = 0 then dbl_fraction d else 2 ^ 52 + dbl_fraction d)"

definition dbl_scale :: "double \<Rightarrow> int" where
  "dbl_scale d = max 1 (dbl_exponent d) - 1075"

text \<open>The value of a finite number, rounded towards zero.\<close>

definition dbl_trunc :: "double \<Rightarrow> int" where
  "dbl_trunc d =
     (let m = (if dbl_scale d \<ge> 0 then dbl_significand d * 2 ^ nat (dbl_scale d)
               else dbl_significand d div 2 ^ nat (- dbl_scale d))
      in if dbl_negative d then - m else m)"

section \<open>Conversions to the types the program uses\<close>

definition cast_u8 :: "double \<Rightarrow> u8 outcome" where
  "cast_u8 d =
     (if dbl_finite d \<and> 0 \<le> dbl_trunc d \<and> dbl_trunc d < 2 ^ 8 then Return (word_of_int (dbl_trunc d))
      else Undefined)"

definition cast_size_t :: "double \<Rightarrow> u64 outcome" where
  "cast_size_t d =
     (if dbl_finite d \<and> 0 \<le> dbl_trunc d \<and> dbl_trunc d < 2 ^ 64 then Return (word_of_int (dbl_trunc d))
      else Undefined)"

text \<open>Only the two zeros convert to \<open>false\<close>.\<close>

definition cast_bool :: "double \<Rightarrow> bool" where
  "cast_bool d \<longleftrightarrow> take_bit 63 (uint d) \<noteq> 0"

section \<open>Rounding a ratio to the nearest number\<close>

function bit_length :: "int \<Rightarrow> int" where
  "bit_length n = (if n \<le> 0 then 0 else bit_length (n div 2) + 1)"
  by pat_completeness auto
termination
  by (relation "measure nat") auto

declare bit_length.simps [simp del]

text \<open>The largest exponent of a power of two that is at most \<open>n / d\<close>.\<close>

definition ratio_log :: "int \<Rightarrow> int \<Rightarrow> int" where
  "ratio_log n d =
     (let k = bit_length n - bit_length d
      in if (if k \<ge> 0 then d * 2 ^ nat k \<le> n else d \<le> n * 2 ^ nat (- k)) then k else k - 1)"

definition round_half_even :: "int \<Rightarrow> int \<Rightarrow> int" where
  "round_half_even n d =
     (let q = n div d; r = n mod d
      in if d < 2 * r \<or> (d = 2 * r \<and> odd q) then q + 1 else q)"

text \<open>
  The significand is scaled to 53 bits, or fewer for the smallest numbers; adding it to the
  exponent field carries over when rounding reaches the next power of two.
\<close>

definition dbl_of_ratio :: "int \<Rightarrow> int \<Rightarrow> double" where
  "dbl_of_ratio n d =
     (if n = 0 then 0
      else
        (let e = max (- 1074) (ratio_log n d - 52);
             m = (if e \<ge> 0 then round_half_even n (d * 2 ^ nat e)
                  else round_half_even (n * 2 ^ nat (- e)) d);
             b = (e + 1074) * 2 ^ 52 + m
         in if b \<ge> 2047 * 2 ^ 52 then word_of_int (2047 * 2 ^ 52) else word_of_int b))"

definition dbl_inf :: double where
  "dbl_inf = word_of_int (2047 * 2 ^ 52)"

definition dbl_nan :: double where
  "dbl_nan = word_of_int (2047 * 2 ^ 52 + 2 ^ 51)"

definition dbl_sign :: "bool \<Rightarrow> double \<Rightarrow> double" where
  "dbl_sign neg d = (if neg then word_of_int (uint d + 2 ^ 63) else d)"

text \<open>\<open>dbl_of_size\<close> is the conversion from an unsigned 64-bit integer.\<close>

definition dbl_of_size :: "u64 \<Rightarrow> double" where
  "dbl_of_size n = dbl_of_ratio (uint n) 1"

section \<open>\<open>strtod\<close>\<close>

definition is_space :: "char \<Rightarrow> bool" where
  "is_space c \<longleftrightarrow> c = CHR '' '' \<or> (9 \<le> (of_char c :: nat) \<and> (of_char c :: nat) \<le> 13)"

definition lower :: "char \<Rightarrow> char" where
  "lower c = (if 65 \<le> (of_char c :: nat) \<and> (of_char c :: nat) \<le> 90 then char_of (of_char c + 32 :: nat) else c)"

definition is_hex :: "char \<Rightarrow> bool" where
  "is_hex c \<longleftrightarrow> is_digit c \<or> (97 \<le> (of_char (lower c) :: nat) \<and> (of_char (lower c) :: nat) \<le> 102)"

definition hex_val :: "char \<Rightarrow> nat" where
  "hex_val c = (if is_digit c then digit_val c else of_char (lower c) - 87)"

definition digits_value :: "int \<Rightarrow> string \<Rightarrow> int" where
  "digits_value b s = foldl (\<lambda>a c. a * b + int (hex_val c)) 0 s"

text \<open>A prefix given in lower case, letters compared without case.\<close>

fun strip_word :: "string \<Rightarrow> string \<Rightarrow> string option" where
  "strip_word [] s = Some s"
| "strip_word (w # ws) [] = None"
| "strip_word (w # ws) (c # s) = (if lower c = w then strip_word ws s else None)"

text \<open>An exponent: the letter, an optional sign, at least one digit; otherwise nothing is taken.\<close>

definition scan_exponent :: "char \<Rightarrow> string \<Rightarrow> int \<times> string" where
  "scan_exponent letter s =
     (case s of [] \<Rightarrow> (0, s)
      | c # t \<Rightarrow>
          if lower c \<noteq> letter then (0, s)
          else
            (let neg = (t \<noteq> [] \<and> hd t = CHR ''-'');
                 u = (if t \<noteq> [] \<and> (hd t = CHR ''-'' \<or> hd t = CHR ''+'') then tl t else t);
                 ds = takeWhile is_digit u
             in if ds = [] then (0, s)
                else ((if neg then - digits_value 10 ds else digits_value 10 ds), dropWhile is_digit u)))"

text \<open>Digits with an optional point: the digits before it, those after it, and the rest.\<close>

definition scan_digits :: "(char \<Rightarrow> bool) \<Rightarrow> string \<Rightarrow> string \<times> string \<times> string" where
  "scan_digits P s =
     (let a = takeWhile P s; t = dropWhile P s
      in if t \<noteq> [] \<and> hd t = CHR ''.''
         then (if a = [] \<and> takeWhile P (tl t) = [] then (a, [], t)
               else (a, takeWhile P (tl t), dropWhile P (tl t)))
         else (a, [], t))"

definition power_ratio :: "int \<Rightarrow> int \<Rightarrow> int \<Rightarrow> double" where
  "power_ratio n b e = (if e \<ge> 0 then dbl_of_ratio (n * b ^ nat e) 1 else dbl_of_ratio n (b ^ nat (- e)))"

definition scan_decimal :: "string \<Rightarrow> (double \<times> string) option" where
  "scan_decimal s =
     (let (a, f, t) = scan_digits is_digit s in
      if a @ f = [] then None
      else
        (let (e, r) = scan_exponent (CHR ''e'') t
         in Some (power_ratio (digits_value 10 (a @ f)) 10 (e - int (length f)), r)))"

definition scan_hex :: "string \<Rightarrow> (double \<times> string) option" where
  "scan_hex s =
     (let (a, f, t) = scan_digits is_hex s in
      if a @ f = [] then None
      else
        (let (e, r) = scan_exponent (CHR ''p'') t
         in Some (power_ratio (digits_value 16 (a @ f)) 2 (e - 4 * int (length f)), r)))"

text \<open>A NaN may carry a parenthesised sequence of letters, digits and underscores.\<close>

definition nan_char :: "char \<Rightarrow> bool" where
  "nan_char c \<longleftrightarrow> is_digit c \<or> c = CHR ''_'' \<or> (97 \<le> (of_char (lower c) :: nat) \<and> (of_char (lower c) :: nat) \<le> 122)"

definition skip_nan_tag :: "string \<Rightarrow> string" where
  "skip_nan_tag s =
     (if s \<noteq> [] \<and> hd s = CHR ''('' then
        (case dropWhile nan_char (tl s) of
           c # r \<Rightarrow> if c = CHR '')'' then r else s
         | [] \<Rightarrow> s)
      else s)"

definition scan_unsigned :: "string \<Rightarrow> (double \<times> string) option" where
  "scan_unsigned s =
     (case strip_word ''infinity'' s of Some r \<Rightarrow> Some (dbl_inf, r) | None \<Rightarrow>
      (case strip_word ''inf'' s of Some r \<Rightarrow> Some (dbl_inf, r) | None \<Rightarrow>
       (case strip_word ''nan'' s of Some r \<Rightarrow> Some (dbl_nan, skip_nan_tag r) | None \<Rightarrow>
        (case strip_word ''0x'' s of
           Some r \<Rightarrow> (case scan_hex r of Some x \<Rightarrow> Some x | None \<Rightarrow> scan_decimal s)
         | None \<Rightarrow> scan_decimal s))))"

text \<open>The number and the rest of the string; without a number the value 0 and all of it.\<close>

definition strtod :: "string \<Rightarrow> double \<times> string" where
  "strtod s =
     (let t = dropWhile is_space s;
          neg = (t \<noteq> [] \<and> hd t = CHR ''-'');
          u = (if t \<noteq> [] \<and> (hd t = CHR ''-'' \<or> hd t = CHR ''+'') then tl t else t)
      in case scan_unsigned u of
           Some (d, r) \<Rightarrow> (dbl_sign neg d, r)
         | None \<Rightarrow> (0, s))"

section \<open>Small integers are exact\<close>

lemma bit_length_bounds:
  "n > 0 \<Longrightarrow> bit_length n \<ge> 1 \<and> 2 ^ nat (bit_length n - 1) \<le> n \<and> n < 2 ^ nat (bit_length n)"
proof (induction n rule: bit_length.induct)
  case (1 n)
  show ?case
  proof (cases "n = 1")
    case True
    have "bit_length 0 = 0" by (simp add: bit_length.simps)
    then have "bit_length 1 = 1" by (subst bit_length.simps) simp
    with True show ?thesis by simp
  next
    case False
    let ?k = "bit_length (n div 2)"
    have IH: "?k \<ge> 1" "2 ^ nat (?k - 1) \<le> n div 2" "n div 2 < 2 ^ nat ?k" using 1 False by auto
    have eq: "bit_length n = ?k + 1" using 1(2) by (subst bit_length.simps) simp
    have "(2 :: int) ^ nat ?k = 2 * 2 ^ nat (?k - 1)"
      using IH(1) by (metis Suc_nat_eq_nat_zadd1 add.commute diff_add_cancel diff_ge_0_iff_ge power_Suc)
    moreover have "(2 :: int) ^ nat (?k + 1) = 2 * 2 ^ nat ?k"
      using IH(1) by (simp add: nat_add_distrib)
    moreover have "2 * (n div 2) \<le> n" "n \<le> 2 * (n div 2) + 1" by simp_all
    ultimately show ?thesis using IH unfolding eq by simp
  qed
qed

lemma round_half_even_1 [simp]: "round_half_even n 1 = n"
  by (simp add: round_half_even_def)

text \<open>The bits of an integer below \<open>2 ^ 53\<close>: the significand is the integer shifted up.\<close>

lemma dbl_of_int_bits:
  assumes "0 < n" and "n < 2 ^ 53"
  shows "\<exists>l. 1 \<le> l \<and> l \<le> 53 \<and> 2 ^ 52 \<le> n * 2 ^ nat (53 - l) \<and> n * 2 ^ nat (53 - l) < 2 ^ 53 \<and>
    dbl_of_ratio n 1 = word_of_int ((l + 1021) * 2 ^ 52 + n * 2 ^ nat (53 - l))"
proof -
  let ?l = "bit_length n"
  have l: "?l \<ge> 1" "2 ^ nat (?l - 1) \<le> n" "n < 2 ^ nat ?l" using bit_length_bounds[OF assms(1)] by auto
  have "(2 :: int) ^ nat (?l - 1) < 2 ^ 53" using l(2) assms(2) by linarith
  then have "nat (?l - 1) < 53" by (simp only: power_strict_increasing_iff)
  then have le: "?l \<le> 53" by linarith
  have one: "bit_length 1 = 1" using bit_length_bounds[of 1]
    by (metis bit_length.simps div_pos_pos_trivial less_numeral_extra(1) not_le one_less_numeral_iff
        semiring_norm(76) zero_le_one add_0 order_refl)
  have log: "ratio_log n 1 = ?l - 1" using l by (simp add: ratio_log_def one)
  have e: "max (- 1074) (ratio_log n 1 - 52) = ?l - 53" using l(1) by (simp add: log)
  have pow: "(2 :: int) ^ nat (?l - 1) * 2 ^ nat (53 - ?l) = 2 ^ 52"
    "(2 :: int) ^ nat ?l * 2 ^ nat (53 - ?l) = 2 ^ 53"
    using l(1) le by (simp_all add: power_add[symmetric] nat_add_distrib[symmetric])
  let ?m = "n * 2 ^ nat (53 - ?l)"
  have m: "2 ^ 52 \<le> ?m" "?m < 2 ^ 53"
    using mult_right_mono[OF l(2), of "2 ^ nat (53 - ?l)"] mult_strict_right_mono[OF l(3), of "2 ^ nat (53 - ?l)"]
    unfolding pow by simp_all
  have "?l = 53" if "\<not> ?l < 53" using that le by simp
  then have r: "(if ?l - 53 \<ge> 0 then round_half_even n (1 * 2 ^ nat (?l - 53))
      else round_half_even (n * 2 ^ nat (- (?l - 53))) 1) = ?m"
    by (cases "?l < 53") simp_all
  have b: "(?l - 53 + 1074) * 2 ^ 52 + ?m = (?l + 1021) * 2 ^ 52 + ?m" by simp
  have "(?l + 1021) * 2 ^ 52 + ?m < 2047 * 2 ^ 52" using m(2) le by simp
  then have "dbl_of_ratio n 1 = word_of_int ((?l + 1021) * 2 ^ 52 + ?m)"
    using assms(1) unfolding dbl_of_ratio_def Let_def e r b by simp
  with l(1) le m show ?thesis by blast
qed

lemma dbl_of_int_exact:
  assumes "0 \<le> n" and "n < 2 ^ 53"
  shows "dbl_finite (dbl_of_ratio n 1) \<and> dbl_trunc (dbl_of_ratio n 1) = n"
proof (cases "n = 0")
  case True
  then show ?thesis
    by (simp add: dbl_of_ratio_def dbl_finite_def dbl_trunc_def dbl_exponent_def dbl_significand_def
        dbl_fraction_def dbl_scale_def)
next
  case False
  with assms obtain l where l: "1 \<le> l" "l \<le> 53" "2 ^ 52 \<le> n * 2 ^ nat (53 - l)" "n * 2 ^ nat (53 - l) < 2 ^ 53"
    and d: "dbl_of_ratio n 1 = word_of_int ((l + 1021) * 2 ^ 52 + n * 2 ^ nat (53 - l))"
    using dbl_of_int_bits[of n] by auto
  let ?m = "n * 2 ^ nat (53 - l)"
  let ?b = "(l + 1021) * 2 ^ 52 + ?m"
  have "0 \<le> ?b" "?b < 2 ^ 63" using l by simp_all
  then have u: "uint (dbl_of_ratio n 1) = ?b"
    unfolding d uint_word_of_int_eq by (intro take_bit_int_eq_self) simp_all
  have split: "?b = (?m - 2 ^ 52) + (l + 1022) * 2 ^ 52" by simp
  have f: "dbl_fraction (dbl_of_ratio n 1) = ?m - 2 ^ 52"
  proof -
    have "0 \<le> ?m - 2 ^ 52" "?m - 2 ^ 52 < 2 ^ 52" using l(3,4) by simp_all
    then have "(?m - 2 ^ 52 + (l + 1022) * 2 ^ 52) mod 2 ^ 52 = ?m - 2 ^ 52"
      by (simp only: mod_mult_self1 mod_pos_pos_trivial)
    then show ?thesis unfolding dbl_fraction_def u take_bit_eq_mod split .
  qed
  have "?b div 2 ^ 52 = l + 1022"
    unfolding split using l(3,4) by (subst div_mult_self1) simp_all
  then have e: "dbl_exponent (dbl_of_ratio n 1) = l + 1022"
    unfolding dbl_exponent_def u drop_bit_eq_div take_bit_eq_mod using l(1,2) by simp
  have s: "dbl_scale (dbl_of_ratio n 1) = l - 53" using l(1) by (simp add: dbl_scale_def e)
  have g: "dbl_significand (dbl_of_ratio n 1) = ?m" using l(1) by (simp add: dbl_significand_def e f)
  have p: "\<not> dbl_negative (dbl_of_ratio n 1)" using \<open>?b < 2 ^ 63\<close> by (simp add: dbl_negative_def u)
  have "l = 53" if "\<not> l < 53" using that l(2) by simp
  then have "dbl_trunc (dbl_of_ratio n 1) = n"
    by (cases "l < 53") (simp_all add: dbl_trunc_def s g p Let_def)
  with e l(2) show ?thesis by (simp add: dbl_finite_def)
qed

lemma cast_exact:
  assumes "n < 2 ^ 53"
  shows "cast_size_t (dbl_of_ratio (int n) 1) = Return (word_of_nat n)"
    and "n < 256 \<Longrightarrow> cast_u8 (dbl_of_ratio (int n) 1) = Return (word_of_nat n)"
  using dbl_of_int_exact[of "int n"] assms by (simp_all add: cast_size_t_def cast_u8_def)

section \<open>Reading decimal integers\<close>

lemma digits_value_10: "(\<forall>c \<in> set s. is_digit c) \<Longrightarrow> digits_value 10 s = int (decimal_value s)"
proof (induction s rule: rev_induct)
  case (snoc c s)
  then show ?case by (simp add: digits_value_def decimal_value_def hex_val_def)
qed (simp add: digits_value_def decimal_value_def)

text \<open>A rest that cannot continue a decimal integer.\<close>

definition number_end :: "string \<Rightarrow> bool" where
  "number_end r \<longleftrightarrow> r = [] \<or>
     (\<not> is_digit (hd r) \<and> hd r \<noteq> CHR ''.'' \<and> lower (hd r) \<noteq> CHR ''e'' \<and> lower (hd r) \<noteq> CHR ''x'')"

lemma digit_not:
  "is_digit c \<Longrightarrow> \<not> is_space c" "is_digit c \<Longrightarrow> c \<noteq> CHR ''-''" "is_digit c \<Longrightarrow> c \<noteq> CHR ''+''"
  "is_digit c \<Longrightarrow> lower c = c" "is_digit c \<Longrightarrow> c \<noteq> CHR ''i''" "is_digit c \<Longrightarrow> c \<noteq> CHR ''n''"
  "is_digit c \<Longrightarrow> c \<noteq> CHR ''x''" "is_digit c \<Longrightarrow> c \<noteq> CHR ''.''"
  by (auto simp: is_digit_def is_space_def lower_def)

lemma strtod_to_string:
  assumes "number_end r"
  shows "strtod (to_string n @ r) = (dbl_of_ratio (int n) 1, r)"
proof -
  obtain c cs where s: "to_string n = c # cs" by (cases "to_string n") auto
  have c: "is_digit c" and cs: "\<And>x. x \<in> set cs \<Longrightarrow> is_digit x"
    using to_string_digits[of _ n] by (auto simp: s)
  have tk: "takeWhile is_digit (to_string n @ r) = to_string n" "dropWhile is_digit (to_string n @ r) = r"
    using assms c cs by (cases r; simp add: s takeWhile_append dropWhile_append number_end_def)+
  have val: "digits_value 10 (to_string n) = int n"
    using to_string_digits[of _ n] by (simp add: digits_value_10)
  have ex: "scan_exponent (CHR ''e'') r = (0, r)"
    using assms by (auto simp: scan_exponent_def number_end_def split: list.splits)
  have dec: "scan_decimal (to_string n @ r) = Some (dbl_of_ratio (int n) 1, r)"
  proof -
    have nd: "\<not> (r \<noteq> [] \<and> hd r = CHR ''.'')" using assms by (auto simp: number_end_def)
    show ?thesis
      unfolding scan_decimal_def scan_digits_def Let_def tk if_not_P[OF nd]
      by (simp add: val ex power_ratio_def)
  qed
  have x: "strip_word ''0x'' (to_string n @ r) = None"
  proof (cases "cs @ r")
    case (Cons d ds)
    then have "lower d \<noteq> CHR ''x''"
      using assms cs[of d] digit_not(4,7)[of d] by (cases cs) (auto simp: number_end_def)
    with Cons show ?thesis by (simp add: s)
  qed (simp add: s)
  have "scan_unsigned (to_string n @ r) = Some (dbl_of_ratio (int n) 1, r)"
    using dec x digit_not(4-6)[OF c] by (simp add: scan_unsigned_def) (simp add: s)
  moreover have "dropWhile is_space (to_string n @ r) = to_string n @ r"
    using digit_not(1)[OF c] by (simp add: s)
  moreover have "hd (to_string n @ r) = c" by (simp add: s)
  ultimately show ?thesis
    using digit_not(2,3)[OF c] by (simp add: strtod_def dbl_sign_def Let_def)
qed

end
