(* ===== verification/Json_Value.thy ===== *)
theory Json_Value
  imports Double Std_Containers
begin

text \<open>
  The JSON document type of \<open>server/libjson.hpp\<close>: \<open>libjson::Value\<close> with its nested class
  \<open>Object\<close>. A value owns its parts, so the pointers of the union become the parts
  themselves; an object carries its map and the iterator that \<open>has\<close> leaves behind.
\<close>

section \<open>Data\<close>

datatype ValueType = Type_NULL | Type_OBJECT | Type_ARRAY | Type_STRING | Type_NUMBER | Type_BOOL

text \<open>
  The iterator \<open>m_iter\<close> of an object: past the end, at the entry of a key, or invalidated
  because its entry was erased.
\<close>

datatype map_iter = It_end | It_at string | It_dangling

text \<open>
  \<open>VT_STRING_gone\<close> is a value of type \<open>VT_STRING\<close> whose string pointer is null, the state in
  which \<open>Value::clear\<close> leaves a string.
\<close>

datatype Value =
    VT_NULL
  | VT_OBJECT Object
  | VT_ARRAY "Value list"
  | VT_STRING string
  | VT_STRING_gone
  | VT_NUMBER double
  | VT_BOOL bool
and Object = Object (m_map: "(string \<times> Value) list") (m_iter: map_iter)

definition Object_new :: Object where
  "Object_new = Object [] It_end"

definition Value_new :: "ValueType \<Rightarrow> Value" where
  "Value_new a_type =
     (case a_type of
        Type_OBJECT \<Rightarrow> VT_OBJECT Object_new
      | Type_ARRAY \<Rightarrow> VT_ARRAY []
      | Type_STRING \<Rightarrow> VT_STRING []
      | Type_NUMBER \<Rightarrow> VT_NUMBER 0
      | Type_BOOL \<Rightarrow> VT_BOOL False
      | Type_NULL \<Rightarrow> VT_NULL)"

text \<open>Move construction: the target takes the parts, the source becomes null.\<close>

definition Value_move :: "Value \<Rightarrow> Value \<times> Value" where
  "Value_move a_source = (a_source, VT_NULL)"

definition getType :: "Value \<Rightarrow> ValueType" where
  "getType v =
     (case v of
        VT_NULL \<Rightarrow> Type_NULL | VT_OBJECT _ \<Rightarrow> Type_OBJECT | VT_ARRAY _ \<Rightarrow> Type_ARRAY
      | VT_STRING _ \<Rightarrow> Type_STRING | VT_STRING_gone \<Rightarrow> Type_STRING
      | VT_NUMBER _ \<Rightarrow> Type_NUMBER | VT_BOOL _ \<Rightarrow> Type_BOOL)"

definition getTypeString :: "Value \<Rightarrow> string" where
  "getTypeString v =
     (case getType v of
        Type_NULL \<Rightarrow> ''NULL'' | Type_OBJECT \<Rightarrow> ''OBJECT'' | Type_ARRAY \<Rightarrow> ''ARRAY''
      | Type_STRING \<Rightarrow> ''STRING'' | Type_NUMBER \<Rightarrow> ''NUMBER'' | Type_BOOL \<Rightarrow> ''BOOL'')"

definition typeConversionError :: "Value \<Rightarrow> string \<Rightarrow> exn" where
  "typeConversionError v a_type =
     runtime_error (''Invalid conversion of '' @ getTypeString v @ '' to '' @ a_type)"

definition typeConversionError_key :: "Value \<Rightarrow> string \<Rightarrow> string \<Rightarrow> exn" where
  "typeConversionError_key v a_key a_type =
     runtime_error (''Invalid conversion of '' @ getTypeString v @ '' to '' @ a_type @ '' for key '' @ a_key)"

section \<open>Reading a value as a type\<close>

text \<open>The conversions, for a given error: numbers and booleans convert to each other.\<close>

definition read_bool :: "Value \<Rightarrow> exn \<Rightarrow> bool outcome" where
  "read_bool v err =
     (case v of VT_BOOL b \<Rightarrow> Return b | VT_NUMBER n \<Rightarrow> Return (cast_bool n) | _ \<Rightarrow> Throw err)"

definition dbl_one :: double where
  "dbl_one = 0x3FF0000000000000"

definition read_number :: "Value \<Rightarrow> exn \<Rightarrow> double outcome" where
  "read_number v err =
     (case v of VT_NUMBER n \<Rightarrow> Return n | VT_BOOL b \<Rightarrow> Return (if b then dbl_one else 0) | _ \<Rightarrow> Throw err)"

definition read_string :: "Value \<Rightarrow> exn \<Rightarrow> string outcome" where
  "read_string v err =
     (case v of VT_STRING s \<Rightarrow> Return s | VT_STRING_gone \<Rightarrow> Undefined | _ \<Rightarrow> Throw err)"

definition read_object :: "Value \<Rightarrow> exn \<Rightarrow> Object outcome" where
  "read_object v err = (case v of VT_OBJECT obj \<Rightarrow> Return obj | _ \<Rightarrow> Throw err)"

definition read_array :: "Value \<Rightarrow> exn \<Rightarrow> Value list outcome" where
  "read_array v err = (case v of VT_ARRAY vs \<Rightarrow> Return vs | _ \<Rightarrow> Throw err)"

definition Value_asBool :: "Value \<Rightarrow> bool outcome" where
  "Value_asBool v = read_bool v (typeConversionError v ''boolean'')"

definition Value_asNumber :: "Value \<Rightarrow> double outcome" where
  "Value_asNumber v = read_number v (typeConversionError v ''number'')"

definition Value_asString :: "Value \<Rightarrow> string outcome" where
  "Value_asString v = read_string v (typeConversionError v ''string'')"

definition Value_asObject :: "Value \<Rightarrow> Object outcome" where
  "Value_asObject v = read_object v (runtime_error ''Value is not an object'')"

definition Value_asArray :: "Value \<Rightarrow> Value list outcome" where
  "Value_asArray v = read_array v (runtime_error ''Value is not an array'')"

definition Value_size :: "Value \<Rightarrow> nat outcome" where
  "Value_size v =
     (case v of
        VT_OBJECT obj \<Rightarrow> Return (length (m_map obj))
      | VT_ARRAY vs \<Rightarrow> Return (length vs)
      | _ \<Rightarrow> Throw (runtime_error ''Value::size() requires object or array type''))"

definition Object_size :: "Object \<Rightarrow> nat" where
  "Object_size obj = length (m_map obj)"

definition Object_clear :: "Object \<Rightarrow> Object" where
  "Object_clear obj = Object [] It_end"

text \<open>\<open>clear\<close> keeps the type: what is not an object or array gets an all-zero payload.\<close>

definition Value_clear :: "Value \<Rightarrow> Value" where
  "Value_clear v =
     (case v of
        VT_OBJECT obj \<Rightarrow> VT_OBJECT (Object_clear obj)
      | VT_ARRAY vs \<Rightarrow> VT_ARRAY []
      | VT_STRING s \<Rightarrow> VT_STRING_gone
      | VT_STRING_gone \<Rightarrow> VT_STRING_gone
      | VT_NUMBER n \<Rightarrow> VT_NUMBER 0
      | VT_BOOL b \<Rightarrow> VT_BOOL False
      | VT_NULL \<Rightarrow> VT_NULL)"

text \<open>Assignments. A string assigned to a string goes through the old pointer.\<close>

definition Value_assign_bool :: "Value \<Rightarrow> bool \<Rightarrow> Value" where
  "Value_assign_bool v a_value = VT_BOOL a_value"

definition Value_assign_number :: "Value \<Rightarrow> double \<Rightarrow> Value" where
  "Value_assign_number v a_value = VT_NUMBER a_value"

definition Value_assign_string :: "Value \<Rightarrow> string \<Rightarrow> Value outcome" where
  "Value_assign_string v a_value =
     (case v of VT_STRING_gone \<Rightarrow> Undefined | _ \<Rightarrow> Return (VT_STRING a_value))"

definition Value_initObject :: "Value \<Rightarrow> Value" where
  "Value_initObject v = VT_OBJECT Object_new"

definition Value_initArray :: "Value \<Rightarrow> Value" where
  "Value_initArray v = VT_ARRAY []"

section \<open>Looking up a key\<close>

definition key_not_found :: "string \<Rightarrow> exn" where
  "key_not_found a_key = runtime_error (''Key not found: '' @ a_key)"

definition Object_getValue :: "Object \<Rightarrow> string \<Rightarrow> Value outcome" where
  "Object_getValue obj a_key =
     (case map_find (m_map obj) a_key of None \<Rightarrow> Throw (key_not_found a_key) | Some v \<Rightarrow> Return v)"

definition Object_getObject :: "Object \<Rightarrow> string \<Rightarrow> Object outcome" where
  "Object_getObject obj a_key =
     (case map_find (m_map obj) a_key of None \<Rightarrow> Throw (key_not_found a_key)
      | Some v \<Rightarrow> read_object v (typeConversionError_key v a_key ''object''))"

definition Object_getArray :: "Object \<Rightarrow> string \<Rightarrow> Value list outcome" where
  "Object_getArray obj a_key =
     (case map_find (m_map obj) a_key of None \<Rightarrow> Throw (key_not_found a_key)
      | Some v \<Rightarrow> read_array v (typeConversionError_key v a_key ''array''))"

definition Object_getBool :: "Object \<Rightarrow> string \<Rightarrow> bool outcome" where
  "Object_getBool obj a_key =
     (case map_find (m_map obj) a_key of None \<Rightarrow> Throw (key_not_found a_key)
      | Some v \<Rightarrow> read_bool v (typeConversionError_key v a_key ''bool''))"

definition Object_getNumber :: "Object \<Rightarrow> string \<Rightarrow> double outcome" where
  "Object_getNumber obj a_key =
     (case map_find (m_map obj) a_key of None \<Rightarrow> Throw (key_not_found a_key)
      | Some v \<Rightarrow> read_number v (typeConversionError_key v a_key ''number''))"

definition Object_getString :: "Object \<Rightarrow> string \<Rightarrow> string outcome" where
  "Object_getString obj a_key =
     (case map_find (m_map obj) a_key of None \<Rightarrow> Throw (key_not_found a_key)
      | Some v \<Rightarrow> read_string v (typeConversionError_key v a_key ''string''))"

section \<open>The internal iterator\<close>

definition Object_has :: "Object \<Rightarrow> string \<Rightarrow> bool \<times> Object" where
  "Object_has obj a_key =
     (case map_find (m_map obj) a_key of
        None \<Rightarrow> (False, Object (m_map obj) It_end)
      | Some _ \<Rightarrow> (True, Object (m_map obj) (It_at a_key)))"

text \<open>The entry the iterator points to; the text of the exception differs between methods.\<close>

definition at_iter :: "Object \<Rightarrow> string \<Rightarrow> (string \<times> Value) outcome" where
  "at_iter obj msg =
     (case m_iter obj of
        It_end \<Rightarrow> Throw (runtime_error msg)
      | It_dangling \<Rightarrow> Undefined
      | It_at k \<Rightarrow> (case map_find (m_map obj) k of None \<Rightarrow> Undefined | Some v \<Rightarrow> Return (k, v)))"

definition bind_outcome :: "'a outcome \<Rightarrow> ('a \<Rightarrow> 'b outcome) \<Rightarrow> 'b outcome" where
  "bind_outcome r f =
     (case r of Return x \<Rightarrow> f x | Throw e \<Rightarrow> Throw e | Wait \<Rightarrow> Wait | Undefined \<Rightarrow> Undefined)"

lemma bind_outcome_simps [simp]:
  "bind_outcome (Return x) f = f x"
  "bind_outcome (Throw e) f = Throw e"
  "bind_outcome Wait f = Wait"
  "bind_outcome Undefined f = Undefined"
  by (simp_all add: bind_outcome_def)

definition Object_value :: "Object \<Rightarrow> Value outcome" where
  "Object_value obj = bind_outcome (at_iter obj ''Key not set'') (\<lambda>(k, v). Return v)"

definition Object_type :: "Object \<Rightarrow> ValueType outcome" where
  "Object_type obj = bind_outcome (at_iter obj ''Key not set'') (\<lambda>(k, v). Return (getType v))"

definition Object_asString :: "Object \<Rightarrow> string outcome" where
  "Object_asString obj = bind_outcome (at_iter obj ''Key not set'')
     (\<lambda>(k, v). read_string v (typeConversionError_key v k ''string''))"

definition Object_asNumber :: "Object \<Rightarrow> double outcome" where
  "Object_asNumber obj = bind_outcome (at_iter obj ''No key set'')
     (\<lambda>(k, v). read_number v (typeConversionError_key v k ''number''))"

definition Object_asBool :: "Object \<Rightarrow> bool outcome" where
  "Object_asBool obj = bind_outcome (at_iter obj ''Key not set'')
     (\<lambda>(k, v). read_bool v (typeConversionError_key v k ''boolean''))"

definition Object_asObject :: "Object \<Rightarrow> Object outcome" where
  "Object_asObject obj = bind_outcome (at_iter obj ''Key not set'')
     (\<lambda>(k, v). read_object v (typeConversionError_key v k ''object''))"

definition Object_asArray :: "Object \<Rightarrow> Value list outcome" where
  "Object_asArray obj = bind_outcome (at_iter obj ''Key not set'')
     (\<lambda>(k, v). read_array v (typeConversionError_key v k ''array''))"

section \<open>The map-like interface\<close>

text \<open>\<open>operator[]\<close> returns a reference to the entry, created as null when it is missing.\<close>

definition Object_index :: "Object \<Rightarrow> string \<Rightarrow> Value \<times> Object" where
  "Object_index obj a_key =
     (case map_find (m_map obj) a_key of
        Some v \<Rightarrow> (v, obj)
      | None \<Rightarrow> (VT_NULL, Object (map_put a_key VT_NULL (m_map obj)) (m_iter obj)))"

text \<open>Assignment of a whole value through such a reference.\<close>

definition Object_set :: "Object \<Rightarrow> string \<Rightarrow> Value \<Rightarrow> Object" where
  "Object_set obj a_key v = Object (map_put a_key v (m_map (snd (Object_index obj a_key)))) (m_iter obj)"

definition Object_at :: "Object \<Rightarrow> string \<Rightarrow> Value outcome" where
  "Object_at obj a_key =
     (case map_find (m_map obj) a_key of
        Some v \<Rightarrow> Return v
      | None \<Rightarrow> Throw (runtime_error (''Key '' @ a_key @ '' not present'')))"

text \<open>Erasing an entry invalidates an iterator that points to it.\<close>

definition Object_erase :: "Object \<Rightarrow> string \<Rightarrow> Object" where
  "Object_erase obj a_key =
     Object (map_erase a_key (m_map obj))
       (if m_iter obj = It_at a_key \<and> map_find (m_map obj) a_key \<noteq> None then It_dangling else m_iter obj)"

text \<open>Positions in the map: of a key, of the first entry, and past the last one.\<close>

definition Object_find :: "Object \<Rightarrow> string \<Rightarrow> map_iter" where
  "Object_find obj a_key = (case map_find (m_map obj) a_key of None \<Rightarrow> It_end | Some _ \<Rightarrow> It_at a_key)"

definition Object_begin :: "Object \<Rightarrow> map_iter" where
  "Object_begin obj = (case m_map obj of [] \<Rightarrow> It_end | (k, _) # _ \<Rightarrow> It_at k)"

definition Object_end :: "Object \<Rightarrow> map_iter" where
  "Object_end obj = It_end"

section \<open>Constructors, assignments and tests\<close>

definition Value_null :: Value where
  "Value_null = VT_NULL"

definition Value_of_bool :: "bool \<Rightarrow> Value" where
  "Value_of_bool a_value = VT_BOOL a_value"

definition Value_of_number :: "double \<Rightarrow> Value" where
  "Value_of_number a_value = VT_NUMBER a_value"

text \<open>An \<open>int\<close> of 32 bits, and its conversion to double, which is exact.\<close>

definition dbl_of_int :: "32 word \<Rightarrow> double" where
  "dbl_of_int n = dbl_sign (sint n < 0) (dbl_of_ratio \<bar>sint n\<bar> 1)"

definition Value_of_int :: "32 word \<Rightarrow> Value" where
  "Value_of_int a_value = VT_NUMBER (dbl_of_int a_value)"

definition Value_of_string :: "string \<Rightarrow> Value" where
  "Value_of_string a_value = VT_STRING a_value"

text \<open>A C string, given as the characters of the array from the pointer on.\<close>

definition Value_of_chars :: "string \<Rightarrow> Value" where
  "Value_of_chars a_value = VT_STRING (takeWhile (\<lambda>c. c \<noteq> CHR 0x00) a_value)"

definition Value_assign_int :: "Value \<Rightarrow> 32 word \<Rightarrow> Value" where
  "Value_assign_int v a_value = VT_NUMBER (dbl_of_int a_value)"

definition Value_assign_size :: "Value \<Rightarrow> u64 \<Rightarrow> Value" where
  "Value_assign_size v a_value = VT_NUMBER (dbl_of_size a_value)"

definition Value_assign_chars :: "Value \<Rightarrow> string \<Rightarrow> Value outcome" where
  "Value_assign_chars v a_value = Value_assign_string v (takeWhile (\<lambda>c. c \<noteq> CHR 0x00) a_value)"

text \<open>
  Assignment of one value to another: the target and the source after it. The source is emptied
  by both forms, unless it is the target itself.
\<close>

definition Value_assign_move :: "bool \<Rightarrow> Value \<Rightarrow> Value \<Rightarrow> Value \<times> Value" where
  "Value_assign_move same v a_source = (if \<not> same then (a_source, VT_NULL) else (v, v))"

definition Value_assign_ref :: "bool \<Rightarrow> Value \<Rightarrow> Value \<Rightarrow> Value \<times> Value" where
  "Value_assign_ref same v a_source = (if \<not> same then (a_source, VT_NULL) else (v, v))"

definition isNull :: "Value \<Rightarrow> bool" where "isNull v \<longleftrightarrow> getType v = Type_NULL"
definition isObject :: "Value \<Rightarrow> bool" where "isObject v \<longleftrightarrow> getType v = Type_OBJECT"
definition isArray :: "Value \<Rightarrow> bool" where "isArray v \<longleftrightarrow> getType v = Type_ARRAY"
definition isString :: "Value \<Rightarrow> bool" where "isString v \<longleftrightarrow> getType v = Type_STRING"
definition isNumber :: "Value \<Rightarrow> bool" where "isNumber v \<longleftrightarrow> getType v = Type_NUMBER"
definition isBool :: "Value \<Rightarrow> bool" where "isBool v \<longleftrightarrow> getType v = Type_BOOL"

text \<open>What \<open>find\<close> returns is where \<open>has\<close> leaves the internal iterator.\<close>

lemma find_has: "m_iter (snd (Object_has obj k)) = Object_find obj k \<and> fst (Object_has obj k) = (Object_find obj k \<noteq> Object_end obj)"
  by (simp add: Object_has_def Object_find_def Object_end_def split: option.split)

end
