(* ===== verification/Json_Parse.thy ===== *)
theory Json_Parse
  imports Json_Value
begin

text \<open>
  The JSON parser of \<open>libjson::Value\<close>. A \<open>const char *\<close> into the text is the list of the
  characters from there to the terminating NUL; dereferencing it yields NUL exactly when the
  list is empty. Positions are counted from the end, as the length of that list; \<open>fromString\<close>
  turns them into offsets as \<open>ParseError::setOffset\<close> does. A parse function that returns a
  pointer \<open>p\<close> is modelled with the list after \<open>p\<close>, since every caller continues at \<open>p + 1\<close>.
\<close>

section \<open>Results\<close>

text \<open>
  \<open>Overread\<close>: the code reads behind the terminator. \<open>No_fuel\<close> does not occur with the fuel
  that \<open>fromString\<close> provides (proved below).
\<close>

datatype 'a parsed = Parsed 'a string | Failed string nat | Overread | No_fuel

definition bind_parsed :: "'a parsed \<Rightarrow> ('a \<Rightarrow> string \<Rightarrow> 'b parsed) \<Rightarrow> 'b parsed" where
  "bind_parsed r f =
     (case r of Parsed x s \<Rightarrow> f x s | Failed m n \<Rightarrow> Failed m n | Overread \<Rightarrow> Overread | No_fuel \<Rightarrow> No_fuel)"

lemma bind_parsed_simps [simp]:
  "bind_parsed (Parsed x s) f = f x s"
  "bind_parsed (Failed m n) f = Failed m n"
  "bind_parsed Overread f = Overread"
  "bind_parsed No_fuel f = No_fuel"
  by (simp_all add: bind_parsed_def)

lemma bind_parsed_cong [fundef_cong]:
  "r = r' \<Longrightarrow> (\<And>x s. r' = Parsed x s \<Longrightarrow> f x s = g x s) \<Longrightarrow> bind_parsed r f = bind_parsed r' g"
  by (cases r') simp_all

section \<open>Characters\<close>

definition notWS :: "char \<Rightarrow> bool" where
  "notWS c \<longleftrightarrow> \<not> (c = CHR '' '' \<or> c = CHR ''\<newline>'' \<or> c = CHR 0x09 \<or> c = CHR 0x0D)"

definition isDigit :: "char \<Rightarrow> bool" where
  "isDigit c \<longleftrightarrow> (of_char c :: nat) \<ge> of_char (CHR ''0'') \<and> (of_char c :: nat) \<le> of_char (CHR ''9'')"

text \<open>\<open>toHex\<close> on one character; \<open>None\<close> is the \<open>ParseError\<close>.\<close>

definition toHex :: "char \<Rightarrow> u8 option" where
  "toHex c =
     (let n = (of_char c :: int) in
      if of_char (CHR ''0'') \<le> n \<and> n \<le> of_char (CHR ''9'') then Some (word_of_int (n - of_char (CHR ''0'')))
      else if of_char (CHR ''A'') \<le> n \<and> n \<le> of_char (CHR ''F'') then Some (word_of_int (10 + n - of_char (CHR ''A'')))
      else if of_char (CHR ''a'') \<le> n \<and> n \<le> of_char (CHR ''f'') then Some (word_of_int (10 + n - of_char (CHR ''a'')))
      else None)"

section \<open>Strings\<close>

text \<open>
  The four \<open>toHex\<close> calls of a unicode escape are operands of \<open>|\<close>, which C++ evaluates in an
  unspecified order: \<open>ord\<close> lists the offsets in the order of evaluation. The result does not
  depend on it unless several calls throw or one reads behind the end of the text.
\<close>

type_synonym eval_order = "nat list"

definition hex_at :: "string \<Rightarrow> nat \<Rightarrow> u8 parsed" where
  "hex_at s k =
     (if k > length s then Overread
      else (case drop k s of
              [] \<Rightarrow> Failed ''Invalid character'' 0
            | c # cs \<Rightarrow>
                (case toHex c of Some h \<Rightarrow> Parsed h cs
                 | None \<Rightarrow> Failed ''Invalid character'' (length (c # cs)))))"

fun hex_check :: "eval_order \<Rightarrow> string \<Rightarrow> unit parsed" where
  "hex_check [] s = Parsed () s"
| "hex_check (k # ks) s = bind_parsed (hex_at s k) (\<lambda>_ _. hex_check ks s)"

definition hex_digit :: "string \<Rightarrow> nat \<Rightarrow> 32 word" where
  "hex_digit s k = (case hex_at s k of Parsed h _ \<Rightarrow> ucast h | _ \<Rightarrow> 0)"

definition hex4 :: "eval_order \<Rightarrow> string \<Rightarrow> 32 word parsed" where
  "hex4 ord s = bind_parsed (hex_check ord s) (\<lambda>_ _. Parsed
     (or (or (or (push_bit 12 (hex_digit s 0)) (push_bit 8 (hex_digit s 1)))
        (push_bit 4 (hex_digit s 2))) (hex_digit s 3)) (drop 4 s))"

definition byte :: "32 word \<Rightarrow> char" where
  "byte w = char_of (uint w)"

text \<open>The UTF-8 encoding of a code point; \<open>None\<close> is the error for a value out of range.\<close>

definition utf8_encode :: "32 word \<Rightarrow> string option" where
  "utf8_encode u =
     (if u < 0x80 then Some [byte u]
      else if u < 0x800 then Some [byte (or 0xC0 (drop_bit 6 u)), byte (or 0x80 (and u 0x3F))]
      else if u < 0x10000 then
        Some [byte (or 0xE0 (drop_bit 12 u)), byte (or 0x80 (and (drop_bit 6 u) 0x3F)), byte (or 0x80 (and u 0x3F))]
      else if u < 0x110000 then
        Some [byte (or 0xF0 (drop_bit 18 u)), byte (or 0x80 (and (drop_bit 12 u) 0x3F)),
              byte (or 0x80 (and (drop_bit 6 u) 0x3F)), byte (or 0x80 (and u 0x3F))]
      else None)"

definition simple_escape :: "char \<Rightarrow> char option" where
  "simple_escape e =
     (if e = CHR ''b'' then Some (CHR 0x08) else if e = CHR ''f'' then Some (CHR 0x0C)
      else if e = CHR ''n'' then Some (CHR 0x0A) else if e = CHR ''r'' then Some (CHR 0x0D)
      else if e = CHR ''t'' then Some (CHR 0x09) else if e = CHR ''/'' then Some (CHR ''/'')
      else if e = CHR 0x22 then Some (CHR 0x22) else if e = CHR 0x5C then Some (CHR 0x5C) else None)"

text \<open>
  The loop of \<open>parseString\<close>: \<open>acc\<close> is what has been appended to the result, \<open>start\<close> the
  position of the first character. The code appends unescaped stretches in one go.
\<close>

function parse_chars :: "eval_order \<Rightarrow> nat \<Rightarrow> string \<Rightarrow> string \<Rightarrow> string parsed" where
  "parse_chars ord start acc [] = Failed ''Unterminated value'' start"
| "parse_chars ord start acc (c # cs) =
     (if c = CHR 0x5C then
        (case cs of
           [] \<Rightarrow> Failed ''Invalid character'' (length (c # cs))
         | e # es \<Rightarrow>
             (case simple_escape e of
                Some x \<Rightarrow> parse_chars ord start (acc @ [x]) es
              | None \<Rightarrow>
                  if e = CHR ''u'' then
                    bind_parsed (hex4 ord es) (\<lambda>u _.
                      case utf8_encode u of
                        Some bs \<Rightarrow> parse_chars ord start (acc @ bs) (drop 4 es)
                      | None \<Rightarrow> Failed ''Invalid unicode escape sequence'' (length (c # cs)))
                  else Failed ''Invalid character'' (length (c # cs))))
      else if c = CHR 0x22 then Parsed acc cs
      else if (of_char c :: nat) < 0x20 then Failed ''Invalid character'' (length (c # cs))
      else parse_chars ord start (acc @ [c]) cs)"
  by pat_completeness auto
termination
  by (relation "measure (\<lambda>(ord, start, acc, s). length s)") auto

definition parseString :: "eval_order \<Rightarrow> string \<Rightarrow> string parsed" where
  "parseString ord start = parse_chars ord (length start) [] start"

section \<open>Numbers\<close>

text \<open>\<open>parseNumber\<close> returns the address before the end of the number, so the rest starts there.\<close>

definition parseNumber :: "string \<Rightarrow> double parsed" where
  "parseNumber start = Parsed (fst (strtod start)) (snd (strtod start))"

section \<open>Values, objects and arrays\<close>

datatype ParseState =
    PS_SEEK_BEG | PS_SEEK_KEY | PS_IN_KEY | PS_SEEK_SEP | PS_SEEK_VAL | PS_IN_VAL_STR
  | PS_IN_VAL_BOOL | PS_IN_VAL_NUM | PS_NUM_INT | PS_NUM_FRAC | PS_NUM_EXP | PS_SEEK_OBJ_END
  | PS_SEEK_ARR_END | PS_SEEK_END

text \<open>
  One round of the loops of \<open>parseValue\<close>, \<open>parseObject\<close> and \<open>parseArray\<close>, with the calls they
  make as parameters. \<open>start\<close> is the position at entry; the object loop carries the current
  key and the map, the array loop the elements so far. A repeated key overwrites the value
  parsed before.
\<close>

type_synonym value_parser = "nat \<Rightarrow> string \<Rightarrow> Value parsed"
type_synonym object_parser = "nat \<Rightarrow> ParseState \<Rightarrow> string \<Rightarrow> (string \<times> Value) list \<Rightarrow> string \<Rightarrow> Value parsed"
type_synonym array_parser = "nat \<Rightarrow> ParseState \<Rightarrow> Value list \<Rightarrow> string \<Rightarrow> Value parsed"

definition keyword :: "string \<Rightarrow> Value \<Rightarrow> string \<Rightarrow> Value parsed" where
  "keyword word v s =
     (if take (length word) s = word then Parsed v (drop (length word) s)
      else Failed ''Invalid value'' (length s))"

definition value_round ::
  "eval_order \<Rightarrow> value_parser \<Rightarrow> object_parser \<Rightarrow> array_parser \<Rightarrow> nat \<Rightarrow> string \<Rightarrow> Value parsed"
where
  "value_round ord pv po pa start s =
     (case s of [] \<Rightarrow> Failed ''Unterminated value'' start
      | c # cs \<Rightarrow>
          if c = CHR 0x7B then po (length cs) PS_SEEK_KEY [] [] cs
          else if c = CHR 0x5B then pa (length cs) PS_SEEK_VAL [] cs
          else if c = CHR 0x22 then bind_parsed (parseString ord cs) (\<lambda>v r. Parsed (VT_STRING v) r)
          else if c = CHR ''t'' then keyword ''true'' (VT_BOOL True) s
          else if c = CHR ''f'' then keyword ''false'' (VT_BOOL False) s
          else if c = CHR ''n'' then keyword ''null'' VT_NULL s
          else if c = CHR ''-'' \<or> isDigit c \<or> c = CHR ''.'' then
            bind_parsed (parseNumber s) (\<lambda>n r. Parsed (VT_NUMBER n) r)
          else if notWS c then Failed ''Invalid character'' (length s)
          else pv start cs)"

definition object_round ::
  "eval_order \<Rightarrow> value_parser \<Rightarrow> object_parser \<Rightarrow> nat \<Rightarrow> ParseState \<Rightarrow> string \<Rightarrow> (string \<times> Value) list \<Rightarrow> string \<Rightarrow> Value parsed"
where
  "object_round ord pv po start st key m s =
     (case s of [] \<Rightarrow> Failed ''Unterminated object'' start
      | c # cs \<Rightarrow>
        (case st of
           PS_SEEK_KEY \<Rightarrow>
             if c = CHR 0x7D then Parsed (VT_OBJECT (Object m It_end)) cs
             else if c = CHR 0x22 then
               bind_parsed (parseString ord cs) (\<lambda>k r.
                 if k = [] then Failed ''Invalid key string'' (length r + 1)
                 else po start PS_SEEK_SEP k m r)
             else if notWS c then Failed ''Invalid character'' (length s)
             else po start st key m cs
         | PS_SEEK_SEP \<Rightarrow>
             if c = CHR '':'' then po start PS_SEEK_VAL key m cs
             else if notWS c then Failed ''Invalid character'' (length s)
             else po start st key m cs
         | PS_SEEK_VAL \<Rightarrow>
             if notWS c then
               bind_parsed (pv (length s) s) (\<lambda>v r. po start PS_SEEK_OBJ_END key (map_put key v m) r)
             else po start st key m cs
         | PS_SEEK_OBJ_END \<Rightarrow>
             if c = CHR '','' then po start PS_SEEK_KEY key m cs
             else if c = CHR 0x7D then Parsed (VT_OBJECT (Object m It_end)) cs
             else if notWS c then Failed ''Invalid character'' (length s)
             else po start st key m cs
         | _ \<Rightarrow> po start st key m cs))"

definition array_round ::
  "value_parser \<Rightarrow> array_parser \<Rightarrow> nat \<Rightarrow> ParseState \<Rightarrow> Value list \<Rightarrow> string \<Rightarrow> Value parsed"
where
  "array_round pv pa start st vs s =
     (case s of [] \<Rightarrow> Failed ''Unterminated array'' start
      | c # cs \<Rightarrow>
        (case st of
           PS_SEEK_VAL \<Rightarrow>
             if c = CHR 0x5D then Parsed (VT_ARRAY vs) cs
             else if notWS c then
               bind_parsed (pv (length s) s) (\<lambda>v r. pa start PS_SEEK_SEP (vs @ [v]) r)
             else pa start st vs cs
         | PS_SEEK_SEP \<Rightarrow>
             if c = CHR '','' then pa start PS_SEEK_VAL vs cs
             else if c = CHR 0x5D then Parsed (VT_ARRAY vs) cs
             else if notWS c then Failed ''Invalid character'' (length s)
             else pa start st vs cs
         | _ \<Rightarrow> pa start st vs cs))"

text \<open>The loops, tied together: one unit of fuel per round and per call.\<close>

fun parse_value :: "eval_order \<Rightarrow> nat \<Rightarrow> value_parser"
  and parse_object :: "eval_order \<Rightarrow> nat \<Rightarrow> object_parser"
  and parse_array :: "eval_order \<Rightarrow> nat \<Rightarrow> array_parser"
where
  "parse_value ord 0 start s = No_fuel"
| "parse_value ord (Suc f) start s =
     value_round ord (parse_value ord f) (parse_object ord f) (parse_array ord f) start s"
| "parse_object ord 0 start st key m s = No_fuel"
| "parse_object ord (Suc f) start st key m s =
     object_round ord (parse_value ord f) (parse_object ord f) start st key m s"
| "parse_array ord 0 start st vs s = No_fuel"
| "parse_array ord (Suc f) start st vs s = array_round (parse_value ord f) (parse_array ord f) start st vs s"

text \<open>The loop of \<open>fromString\<close> over the whole document.\<close>

definition document_round ::
  "eval_order \<Rightarrow> object_parser \<Rightarrow> array_parser \<Rightarrow> (ParseState \<Rightarrow> Value \<Rightarrow> string \<Rightarrow> Value parsed) \<Rightarrow>
    ParseState \<Rightarrow> Value \<Rightarrow> string \<Rightarrow> Value parsed"
where
  "document_round ord po pa pd st v s =
     (case s of [] \<Rightarrow> Parsed v []
      | c # cs \<Rightarrow>
        (case st of
           PS_SEEK_BEG \<Rightarrow>
             if c = CHR 0x7B then
               bind_parsed (po (length cs) PS_SEEK_KEY [] [] cs) (\<lambda>w r. pd PS_SEEK_OBJ_END w r)
             else if c = CHR 0x5B then
               bind_parsed (pa (length cs) PS_SEEK_VAL [] cs) (\<lambda>w r. pd PS_SEEK_ARR_END w r)
             else if notWS c then Failed ''Invalid character'' (length s)
             else pd st v cs
         | PS_SEEK_OBJ_END \<Rightarrow>
             if c = CHR 0x7D then pd PS_SEEK_END v cs
             else if notWS c then Failed ''Invalid character'' (length s)
             else pd st v cs
         | PS_SEEK_ARR_END \<Rightarrow>
             if c = CHR 0x5D then pd PS_SEEK_END v cs
             else if notWS c then Failed ''Invalid character'' (length s)
             else pd st v cs
         | PS_SEEK_END \<Rightarrow>
             if notWS c then Failed ''Invalid character'' (length s)
             else pd st v cs
         | _ \<Rightarrow> pd st v cs))"

fun parse_document :: "eval_order \<Rightarrow> nat \<Rightarrow> ParseState \<Rightarrow> Value \<Rightarrow> string \<Rightarrow> Value parsed" where
  "parse_document ord 0 st v s = No_fuel"
| "parse_document ord (Suc f) st v s =
     document_round ord (parse_object ord f) (parse_array ord f) (parse_document ord f) st v s"

definition parse_fuel :: "string \<Rightarrow> nat" where
  "parse_fuel s = 3 * length s + 3"

text \<open>
  \<open>fromString\<close> of a \<open>std::string\<close>: the parser sees the text up to the first NUL. The old value
  is discarded first.
\<close>

definition c_str :: "string \<Rightarrow> string" where
  "c_str s = takeWhile (\<lambda>c. c \<noteq> CHR 0x00) s"

definition fromString :: "eval_order \<Rightarrow> string \<Rightarrow> Value outcome" where
  "fromString ord a_raw_json =
     (let s = c_str a_raw_json in
      case parse_document ord (parse_fuel s) PS_SEEK_BEG VT_NULL s of
        Parsed v r \<Rightarrow> Return v
      | Failed msg n \<Rightarrow> Throw (parse_error msg (length s - n))
      | Overread \<Rightarrow> Undefined
      | No_fuel \<Rightarrow> Undefined)"

text \<open>What \<open>what()\<close> returns for an exception.\<close>

definition what :: "exn \<Rightarrow> string" where
  "what e =
     (case e of
        runtime_error m \<Rightarrow> m | length_error m \<Rightarrow> m | logic_error m \<Rightarrow> m
      | invalid_argument m \<Rightarrow> m | out_of_range m \<Rightarrow> m
      | parse_error m pos \<Rightarrow> m @ '' at position '' @ to_string pos)"

end
