(* ===== verification/Json_Fuel.thy ===== *)
theory Json_Fuel
  imports Json_Parse
begin

text \<open>
  The parser always ends: every parse function returns a rest that is no longer than its input,
  more fuel never changes a result, and the fuel that \<open>fromString\<close> provides is enough.
\<close>

section \<open>Rests\<close>

lemma hex4_Parsed: "hex4 ord s = Parsed u r \<Longrightarrow> r = drop 4 s"
  by (auto simp: hex4_def bind_parsed_def split: parsed.splits)

lemma parse_chars_rest: "parse_chars ord start acc s = Parsed v r \<Longrightarrow> length r < length s"
proof (induction ord start acc s rule: parse_chars.induct)
  case (2 ord start acc c cs)
  show ?case
  proof (cases "c = CHR 0x5C")
    case False
    then show ?thesis using 2 by (auto split: if_splits)
  next
    case True
    with 2(4) obtain e es where cs: "cs = e # es" by (auto split: list.splits)
    show ?thesis
    proof (cases "simple_escape e")
      case (Some x)
      with 2(2)[OF True cs Some] 2(4) cs True Some show ?thesis by simp
    next
      case None
      with 2(4) True cs have u: "e = CHR ''u''" by (auto split: if_splits)
      from 2(4) True cs None u obtain w t bs where "hex4 ord es = Parsed w t" "utf8_encode w = Some bs"
          "parse_chars ord start (acc @ bs) (drop 4 es) = Parsed v r"
        by (auto simp: bind_parsed_def split: parsed.splits option.splits)
      with 2(1)[OF True cs None u] cs show ?thesis by fastforce
    qed
  qed
qed simp

lemma parseString_rest: "parseString ord s = Parsed v r \<Longrightarrow> length r < length s"
  by (simp add: parseString_def parse_chars_rest)

lemma strip_word_rest: "strip_word w s = Some r \<Longrightarrow> length r + length w = length s"
  by (induction w s rule: strip_word.induct) (auto split: if_splits)

lemma length_dropWhile_tl: "length (dropWhile P (tl s)) \<le> length s"
  using length_dropWhile_le[of P "tl s"] by (cases s) auto

lemma scan_exponent_rest: "scan_exponent c s = (e, r) \<Longrightarrow> length r \<le> length s"
  by (auto simp: scan_exponent_def Let_def length_dropWhile_le le_SucI
      intro: le_trans[OF length_dropWhile_le] le_trans[OF length_dropWhile_tl]
      split: list.splits if_splits)

lemma scan_digits_rest: "scan_digits P s = (a, f, r) \<Longrightarrow> length r \<le> length s"
proof -
  have "length (dropWhile P (tl (dropWhile P s))) \<le> length s"
    using length_dropWhile_tl[of P "dropWhile P s"] length_dropWhile_le[of P s] by linarith
  then show "scan_digits P s = (a, f, r) \<Longrightarrow> length r \<le> length s"
    using length_dropWhile_le[of P s] by (auto simp: scan_digits_def Let_def split: if_splits)
qed

lemma scan_decimal_rest: "scan_decimal s = Some (d, r) \<Longrightarrow> length r \<le> length s"
  by (auto simp: scan_decimal_def Let_def split: prod.splits if_splits
      dest!: scan_digits_rest scan_exponent_rest)

lemma scan_hex_rest: "scan_hex s = Some (d, r) \<Longrightarrow> length r \<le> length s"
  by (auto simp: scan_hex_def Let_def split: prod.splits if_splits
      dest!: scan_digits_rest scan_exponent_rest)

lemma skip_nan_tag_rest: "length (skip_nan_tag s) \<le> length s"
  using length_dropWhile_tl[of nan_char s] by (auto simp: skip_nan_tag_def split: list.split)

lemma scan_unsigned_rest: "scan_unsigned s = Some (d, r) \<Longrightarrow> length r \<le> length s"
proof (cases "strip_word ''infinity'' s")
  case (Some t)
  then show "scan_unsigned s = Some (d, r) \<Longrightarrow> length r \<le> length s"
    using strip_word_rest[OF Some] by (auto simp: scan_unsigned_def)
next
  case no_infinity: None
  show "scan_unsigned s = Some (d, r) \<Longrightarrow> length r \<le> length s"
  proof (cases "strip_word ''inf'' s")
    case (Some t)
    then show "scan_unsigned s = Some (d, r) \<Longrightarrow> length r \<le> length s"
      using strip_word_rest[OF Some] no_infinity by (auto simp: scan_unsigned_def)
  next
    case no_inf: None
    show "scan_unsigned s = Some (d, r) \<Longrightarrow> length r \<le> length s"
    proof (cases "strip_word ''nan'' s")
      case (Some t)
      then show "scan_unsigned s = Some (d, r) \<Longrightarrow> length r \<le> length s"
        using strip_word_rest[OF Some] skip_nan_tag_rest[of t] no_infinity no_inf
        by (auto simp: scan_unsigned_def)
    next
      case None
      then show "scan_unsigned s = Some (d, r) \<Longrightarrow> length r \<le> length s"
        using no_infinity no_inf
        by (auto simp: scan_unsigned_def split: option.splits
            dest: scan_decimal_rest dest!: scan_hex_rest strip_word_rest)
    qed
  qed
qed

lemma strtod_rest: "length (snd (strtod s)) \<le> length s"
proof -
  let ?t = "dropWhile is_space s"
  have "length (tl ?t) \<le> length s" "length ?t \<le> length s"
    using length_dropWhile_le[of is_space s] by auto
  then show ?thesis
    by (auto simp: strtod_def Let_def split: option.splits dest!: scan_unsigned_rest)
qed

lemma keyword_rest: "keyword w v s = Parsed x r \<Longrightarrow> length r \<le> length s"
  by (auto simp: keyword_def split: if_splits)

lemmas base_rests = parseString_rest keyword_rest

lemma parse_rests:
  "(parse_value ord f start s = Parsed v r \<longrightarrow> length r \<le> length s) \<and>
   (parse_object ord f start st key m s = Parsed v r \<longrightarrow> length r < length s) \<and>
   (parse_array ord f start st vs s = Parsed v r \<longrightarrow> length r < length s)"
proof (induction f arbitrary: start s v r st key m vs)
  case (Suc f)
  note V = Suc.IH[THEN conjunct1, rule_format] and O = Suc.IH[THEN conjunct2, THEN conjunct1, rule_format]
    and A = Suc.IH[THEN conjunct2, THEN conjunct2, rule_format]
  show ?case
  proof (intro conjI impI)
    assume "parse_value ord (Suc f) start s = Parsed v r"
    then show "length r \<le> length s"
      using strtod_rest[of s]
      by (auto simp: value_round_def bind_parsed_def parseNumber_def
          split: list.splits if_splits parsed.splits dest!: O A V base_rests)
  next
    assume "parse_object ord (Suc f) start st key m s = Parsed v r"
    then show "length r < length s"
      by (auto simp: object_round_def bind_parsed_def
          split: list.splits if_splits parsed.splits ParseState.splits dest!: O V base_rests)
  next
    assume "parse_array ord (Suc f) start st vs s = Parsed v r"
    then show "length r < length s"
      by (auto simp: array_round_def bind_parsed_def
          split: list.splits if_splits parsed.splits ParseState.splits dest!: A V)
  qed
qed simp

lemmas parse_value_rest = parse_rests[THEN conjunct1, rule_format]
  and parse_object_rest = parse_rests[THEN conjunct2, THEN conjunct1, rule_format]
  and parse_array_rest = parse_rests[THEN conjunct2, THEN conjunct2, rule_format]

section \<open>More fuel, same result\<close>

text \<open>A result that refines another, which may still be out of fuel.\<close>

definition ext :: "'a parsed \<Rightarrow> 'a parsed \<Rightarrow> bool" where
  "ext r r' \<longleftrightarrow> r = No_fuel \<or> r' = r"

lemma ext_refl: "ext r r"
  by (simp add: ext_def)

lemma ext_if: "ext x x' \<Longrightarrow> ext y y' \<Longrightarrow> ext (if b then x else y) (if b then x' else y')"
  by simp

lemma ext_bind: "ext r r' \<Longrightarrow> (\<And>x s. ext (f x s) (f' x s)) \<Longrightarrow> ext (bind_parsed r f) (bind_parsed r' f')"
  by (cases r) (auto simp: ext_def)

lemmas ext_intros = ext_if ext_bind ext_refl

lemma ext_value_round:
  assumes "\<And>a s. ext (pv a s) (pv' a s)" and "\<And>a st k m s. ext (po a st k m s) (po' a st k m s)"
    and "\<And>a st vs s. ext (pa a st vs s) (pa' a st vs s)"
  shows "ext (value_round ord pv po pa a s) (value_round ord pv' po' pa' a s)"
  unfolding value_round_def
  by (cases s; simp only: list.case) (intro ext_intros assms)+

lemma ext_object_round:
  assumes "\<And>a s. ext (pv a s) (pv' a s)" and "\<And>a st k m s. ext (po a st k m s) (po' a st k m s)"
  shows "ext (object_round ord pv po a st k m s) (object_round ord pv' po' a st k m s)"
  unfolding object_round_def
  by (cases s; cases st; simp only: list.case ParseState.case) (intro ext_if ext_bind assms ext_refl)+

lemma ext_array_round:
  assumes "\<And>a s. ext (pv a s) (pv' a s)" and "\<And>a st vs s. ext (pa a st vs s) (pa' a st vs s)"
  shows "ext (array_round pv pa a st vs s) (array_round pv' pa' a st vs s)"
  unfolding array_round_def
  by (cases s; cases st; simp only: list.case ParseState.case) (intro ext_if ext_bind assms ext_refl)+

lemma ext_document_round:
  assumes "\<And>a st k m s. ext (po a st k m s) (po' a st k m s)"
    and "\<And>a st vs s. ext (pa a st vs s) (pa' a st vs s)" and "\<And>st v s. ext (pd st v s) (pd' st v s)"
  shows "ext (document_round ord po pa pd st v s) (document_round ord po' pa' pd' st v s)"
  unfolding document_round_def
  by (cases s; cases st; simp only: list.case ParseState.case) (intro ext_if ext_bind assms ext_refl)+

lemma ext_parsers:
  "f \<le> g \<Longrightarrow> ext (parse_value ord f a s) (parse_value ord g a s) \<and>
     ext (parse_object ord f a st k m s) (parse_object ord g a st k m s) \<and>
     ext (parse_array ord f a st vs s) (parse_array ord g a st vs s)"
proof (induction f arbitrary: g a s st k m vs)
  case (Suc f)
  then obtain g' where g: "g = Suc g'" "f \<le> g'" by (cases g) auto
  note IH = Suc.IH[OF g(2)]
  show ?case
    unfolding g(1) parse_value.simps parse_object.simps parse_array.simps
    using IH by (intro conjI ext_value_round ext_object_round ext_array_round) blast+
qed (simp add: ext_def)

lemma ext_parse_document: "f \<le> g \<Longrightarrow> ext (parse_document ord f st v s) (parse_document ord g st v s)"
proof (induction f arbitrary: g st v s)
  case (Suc f)
  then obtain g' where g: "g = Suc g'" "f \<le> g'" by (cases g) auto
  show ?case
    unfolding g(1) parse_document.simps
    using Suc.IH[OF g(2)] ext_parsers[OF g(2)] by (intro ext_document_round) blast+
qed (simp add: ext_def)

section \<open>Enough fuel\<close>

definition finished :: "'a parsed \<Rightarrow> bool" where
  "finished r \<longleftrightarrow> r \<noteq> No_fuel"

lemma finished_if: "(b \<Longrightarrow> finished x) \<Longrightarrow> (\<not> b \<Longrightarrow> finished y) \<Longrightarrow> finished (if b then x else y)"
  by simp

lemma finished_bind:
  "finished r \<Longrightarrow> (\<And>x s. r = Parsed x s \<Longrightarrow> finished (f x s)) \<Longrightarrow> finished (bind_parsed r f)"
  by (cases r) (auto simp: finished_def)

lemma finished_simps [simp]: "finished (Parsed v r)" "finished (Failed msg n)" "finished Overread" "\<not> finished No_fuel"
  by (simp_all add: finished_def)

lemma finished_keyword [simp]: "finished (keyword w v s)"
  by (simp add: keyword_def)

lemma finished_hex4: "finished (hex4 ord s)"
proof -
  have "finished (hex_check ks s)" for ks
    by (induction ks s rule: hex_check.induct)
      (auto simp: hex_at_def intro!: finished_bind split: list.splits option.splits)
  then show ?thesis by (simp add: hex4_def finished_bind)
qed

lemma finished_parse_chars: "finished (parse_chars ord start acc s)"
proof (induction ord start acc s rule: parse_chars.induct)
  case (2 ord start acc c cs)
  then show ?case
    by (auto intro!: finished_bind finished_hex4 split: list.splits option.splits)
qed simp

lemma finished_parseString [simp]: "finished (parseString ord s)"
  by (simp add: parseString_def finished_parse_chars)

text \<open>
  Three units per character: a value may start where an object loop stands, and the loop may
  stand there once more after it.
\<close>

definition loop_fuel :: "ParseState \<Rightarrow> string \<Rightarrow> nat" where
  "loop_fuel st s = 3 * length s + (if st = PS_SEEK_VAL then 3 else 2)"

lemma value_round_finished:
  assumes "\<And>a x. length x < length s \<Longrightarrow> finished (pv a x)"
    and "\<And>a l n x. length x < length s \<Longrightarrow> finished (po a PS_SEEK_KEY l n x)"
    and "\<And>a vs x. length x < length s \<Longrightarrow> finished (pa a PS_SEEK_VAL vs x)"
  shows "finished (value_round ord pv po pa a s)"
  using assms unfolding value_round_def
  by (cases s) (auto intro!: finished_bind simp: parseNumber_def)

lemma object_round_finished:
  assumes pv: "st = PS_SEEK_VAL \<Longrightarrow> finished (pv (length s) s)" "\<And>v r. pv (length s) s = Parsed v r \<Longrightarrow> length r \<le> length s"
    and po: "\<And>a t l n x. loop_fuel t x < loop_fuel st s \<Longrightarrow> finished (po a t l n x)"
  shows "finished (object_round ord pv po a st k m s)"
proof (cases s)
  case (Cons c cs)
  have loop: "length x \<le> length cs \<or> st = PS_SEEK_VAL \<and> t = PS_SEEK_OBJ_END \<and> length x \<le> Suc (length cs) \<Longrightarrow>
      finished (po a t l n x)" for a t l n x
    by (intro po) (auto simp: loop_fuel_def Cons)
  have str: "parseString ord cs = Parsed l x \<Longrightarrow> length x \<le> length cs" for l x
    using parseString_rest[of ord cs l x] by simp
  show ?thesis
    unfolding object_round_def
    by (cases st)
      (auto simp: Cons intro!: finished_if finished_bind loop pv(1)[unfolded Cons, simplified]
        dest: str pv(2)[unfolded Cons, simplified])
qed (simp add: object_round_def)

lemma array_round_finished:
  assumes pv: "st = PS_SEEK_VAL \<Longrightarrow> finished (pv (length s) s)" "\<And>v r. pv (length s) s = Parsed v r \<Longrightarrow> length r \<le> length s"
    and pa: "\<And>a t l x. loop_fuel t x < loop_fuel st s \<Longrightarrow> finished (pa a t l x)"
  shows "finished (array_round pv pa a st vs s)"
proof (cases s)
  case (Cons c cs)
  have cs: "finished (pa a t l cs)" for a t l by (intro pa) (simp add: loop_fuel_def Cons)
  have after: "st = PS_SEEK_VAL \<Longrightarrow> length x \<le> length s \<Longrightarrow> finished (pa a PS_SEEK_SEP l x)" for a l x
    by (intro pa) (simp add: loop_fuel_def)
  show ?thesis
    unfolding array_round_def
    by (cases st)
      (auto simp: Cons intro!: finished_if finished_bind cs pv[unfolded Cons, simplified] after[unfolded Cons, simplified])
qed (simp add: array_round_def)

lemma parsers_finished:
  "(3 * length s + 1 \<le> f \<longrightarrow> finished (parse_value ord f a s)) \<and>
   (loop_fuel st s \<le> f \<longrightarrow> finished (parse_object ord f a st k m s)) \<and>
   (loop_fuel st s \<le> f \<longrightarrow> finished (parse_array ord f a st vs s))"
proof (induction f arbitrary: s a st k m vs)
  case (Suc f)
  have V: "3 * length x + 1 \<le> f \<Longrightarrow> finished (parse_value ord f b x)"
    and O: "loop_fuel t x \<le> f \<Longrightarrow> finished (parse_object ord f b t l n x)"
    and A: "loop_fuel t x \<le> f \<Longrightarrow> finished (parse_array ord f b t ws x)"
    for x b t l n ws using Suc.IH by blast+
  have "finished (parse_value ord (Suc f) a s)" if "3 * length s + 1 \<le> Suc f"
    unfolding parse_value.simps
    by (rule value_round_finished) (use that in \<open>auto intro!: V O A simp: loop_fuel_def\<close>)
  moreover have "finished (parse_object ord (Suc f) a st k m s)" if "loop_fuel st s \<le> Suc f"
    unfolding parse_object.simps
    by (rule object_round_finished)
      (use that in \<open>auto intro!: V O simp: loop_fuel_def parse_value_rest split: if_splits\<close>)
  moreover have "finished (parse_array ord (Suc f) a st vs s)" if "loop_fuel st s \<le> Suc f"
    unfolding parse_array.simps
    by (rule array_round_finished)
      (use that in \<open>auto intro!: V A simp: loop_fuel_def parse_value_rest split: if_splits\<close>)
  ultimately show ?case by blast
qed (simp add: loop_fuel_def)

lemma parse_document_finished: "3 * length s + 2 \<le> f \<Longrightarrow> finished (parse_document ord f st v s)"
proof (induction f arbitrary: st v s)
  case (Suc f)
  show ?case
  proof (cases s)
    case Nil
    then show ?thesis by (simp add: document_round_def)
  next
    case (Cons c cs)
    have o: "finished (parse_object ord f a PS_SEEK_KEY k m cs)"
      and ar: "finished (parse_array ord f a PS_SEEK_VAL vs cs)" for a k m vs
      using parsers_finished[of cs f ord a PS_SEEK_KEY k m vs] parsers_finished[of cs f ord a PS_SEEK_VAL k m vs] Suc.prems
      by (auto simp: Cons loop_fuel_def)
    have d: "length x \<le> length cs \<Longrightarrow> finished (parse_document ord f t w x)" for t w x
      using Suc.prems by (intro Suc.IH) (simp add: Cons)
    show ?thesis
      unfolding parse_document.simps document_round_def
      by (cases st)
        (auto simp: Cons intro!: finished_if finished_bind o ar d
          dest!: parse_object_rest parse_array_rest)
  qed
qed simp

lemma fromString_fuel: "parse_document ord (parse_fuel s) PS_SEEK_BEG VT_NULL s \<noteq> No_fuel"
  using parse_document_finished[of s "parse_fuel s"] by (simp add: parse_fuel_def finished_def)

text \<open>What a parse with any fuel finds is the result of \<open>fromString\<close>.\<close>

lemma parse_document_any_fuel:
  assumes "parse_document ord f PS_SEEK_BEG VT_NULL s = r" and "r \<noteq> No_fuel"
  shows "parse_document ord (parse_fuel s) PS_SEEK_BEG VT_NULL s = r"
proof -
  let ?g = "max f (parse_fuel s)"
  have "parse_document ord ?g PS_SEEK_BEG VT_NULL s = r"
    using ext_parse_document[of f ?g ord PS_SEEK_BEG VT_NULL s] assms by (simp add: ext_def)
  then show ?thesis
    using ext_parse_document[of "parse_fuel s" ?g ord PS_SEEK_BEG VT_NULL s] fromString_fuel[of ord]
    by (simp add: ext_def)
qed

lemma fromString_Return:
  "parse_document ord f PS_SEEK_BEG VT_NULL (c_str s) = Parsed v r \<Longrightarrow> fromString ord s = Return v"
  by (drule parse_document_any_fuel) (simp_all add: fromString_def Let_def)

lemma fromString_Throw:
  "parse_document ord f PS_SEEK_BEG VT_NULL (c_str s) = Failed msg n \<Longrightarrow>
     fromString ord s = Throw (parse_error msg (length (c_str s) - n))"
  by (drule parse_document_any_fuel) (simp_all add: fromString_def Let_def)

end
