(* ===== verification/Json_Rules.thy ===== *)
theory Json_Rules
  imports Json_Fuel
begin

text \<open>
  Successful parses as rules: what the parser accepts, one rule per construct of the text, with
  the fuel hidden. The rules compose to the documents that the server and its clients exchange.
\<close>

section \<open>Parses, without fuel\<close>

definition value_parses :: "eval_order \<Rightarrow> string \<Rightarrow> Value \<Rightarrow> string \<Rightarrow> bool" where
  "value_parses ord s v r \<longleftrightarrow> (\<exists>f. \<forall>a. parse_value ord f a s = Parsed v r)"

definition object_parses ::
  "eval_order \<Rightarrow> ParseState \<Rightarrow> string \<Rightarrow> (string \<times> Value) list \<Rightarrow> string \<Rightarrow> Value \<Rightarrow> string \<Rightarrow> bool" where
  "object_parses ord st k m s v r \<longleftrightarrow> (\<exists>f. \<forall>a. parse_object ord f a st k m s = Parsed v r)"

definition array_parses ::
  "eval_order \<Rightarrow> ParseState \<Rightarrow> Value list \<Rightarrow> string \<Rightarrow> Value \<Rightarrow> string \<Rightarrow> bool" where
  "array_parses ord st vs s v r \<longleftrightarrow> (\<exists>f. \<forall>a. parse_array ord f a st vs s = Parsed v r)"

definition document_parses :: "eval_order \<Rightarrow> string \<Rightarrow> Value \<Rightarrow> bool" where
  "document_parses ord s v \<longleftrightarrow> (\<exists>f r. parse_document ord f PS_SEEK_BEG VT_NULL s = Parsed v r)"

lemma parse_value_mono: "parse_value ord f a s = Parsed v r \<Longrightarrow> f \<le> g \<Longrightarrow> parse_value ord g a s = Parsed v r"
  using ext_parsers[of f g ord a s] by (auto simp: ext_def)

lemma parse_object_mono:
  "parse_object ord f a st k m s = Parsed v r \<Longrightarrow> f \<le> g \<Longrightarrow> parse_object ord g a st k m s = Parsed v r"
  using ext_parsers[of f g ord a s st k m] by (auto simp: ext_def)

lemma parse_array_mono:
  "parse_array ord f a st vs s = Parsed v r \<Longrightarrow> f \<le> g \<Longrightarrow> parse_array ord g a st vs s = Parsed v r"
  using ext_parsers[of f g ord a s st _ _ vs] by (auto simp: ext_def)

section \<open>Strings\<close>

definition plain_char :: "char \<Rightarrow> bool" where
  "plain_char c \<longleftrightarrow> 0x20 \<le> (of_char c :: nat) \<and> c \<noteq> CHR 0x22 \<and> c \<noteq> CHR 0x5C"

definition plain :: "string \<Rightarrow> bool" where
  "plain s \<longleftrightarrow> (\<forall>c \<in> set s. plain_char c)"

lemma plain_simps [simp]: "plain []" "plain (c # s) \<longleftrightarrow> plain_char c \<and> plain s" "plain (s @ t) \<longleftrightarrow> plain s \<and> plain t"
  by (auto simp: plain_def)

lemma plain_to_string [simp]: "plain (to_string n)"
proof -
  have "plain_char c" if "is_digit c" for c
    using that by (auto simp: is_digit_def plain_char_def)
  then show ?thesis using to_string_digits by (auto simp: plain_def)
qed

lemma parse_chars_plain: "plain s \<Longrightarrow> parse_chars ord a acc (s @ CHR 0x22 # r) = Parsed (acc @ s) r"
  by (induction s arbitrary: acc) (auto simp: plain_char_def)

lemma parseString_plain: "plain s \<Longrightarrow> parseString ord (s @ CHR 0x22 # r) = Parsed s r"
  by (simp add: parseString_def parse_chars_plain)

section \<open>Values\<close>

lemma vp_string:
  assumes "parseString ord s = Parsed v r"
  shows "value_parses ord (CHR 0x22 # s) (VT_STRING v) r"
  unfolding value_parses_def by (rule exI[of _ 1]) (simp add: value_round_def assms)

lemma vp_keywords:
  "value_parses ord (''true'' @ r) (VT_BOOL True) r"
  "value_parses ord (''false'' @ r) (VT_BOOL False) r"
  "value_parses ord (''null'' @ r) VT_NULL r"
  unfolding value_parses_def by (rule exI[of _ 1], simp add: value_round_def keyword_def)+

lemma isDigit_is_digit: "isDigit c \<longleftrightarrow> is_digit c"
  by (simp add: isDigit_def is_digit_def)

lemma digit_not_structural:
  assumes "is_digit c"
  shows "c \<noteq> CHR 0x7B" "c \<noteq> CHR 0x5B" "c \<noteq> CHR 0x22" "c \<noteq> CHR ''t''" "c \<noteq> CHR ''f''" "c \<noteq> CHR ''n''"
    "c \<noteq> CHR 0x7D" "c \<noteq> CHR 0x5D" "notWS c"
  using assms by (auto simp: is_digit_def notWS_def)

lemma vp_number:
  assumes "number_end r"
  shows "value_parses ord (to_string n @ r) (VT_NUMBER (dbl_of_ratio (int n) 1)) r"
proof -
  obtain c cs where s: "to_string n = c # cs" by (cases "to_string n") auto
  have c: "is_digit c" using to_string_digits[of c n] by (simp add: s)
  have n: "parseNumber (c # cs @ r) = Parsed (dbl_of_ratio (int n) 1) r"
    using strtod_to_string[OF assms, of n] by (simp add: parseNumber_def s)
  show ?thesis
    unfolding value_parses_def
    by (rule exI[of _ 1]) (simp add: value_round_def s n isDigit_is_digit c digit_not_structural[OF c])
qed

lemma vp_object: "object_parses ord PS_SEEK_KEY [] [] s v r \<Longrightarrow> value_parses ord (CHR 0x7B # s) v r"
  unfolding value_parses_def object_parses_def
  by (elim exE, rule_tac x = "Suc f" in exI) (simp add: value_round_def)

lemma vp_array: "array_parses ord PS_SEEK_VAL [] s v r \<Longrightarrow> value_parses ord (CHR 0x5B # s) v r"
  unfolding value_parses_def array_parses_def
  by (elim exE, rule_tac x = "Suc f" in exI) (simp add: value_round_def)

section \<open>Objects\<close>

lemma op_close:
  "st = PS_SEEK_KEY \<or> st = PS_SEEK_OBJ_END \<Longrightarrow>
     object_parses ord st k m (CHR 0x7D # r) (VT_OBJECT (Object m It_end)) r"
  unfolding object_parses_def by (rule exI[of _ 1]) (auto simp: object_round_def)

lemma op_key:
  assumes "parseString ord s = Parsed k t" and "k \<noteq> []" and "object_parses ord PS_SEEK_SEP k m t v r"
  shows "object_parses ord PS_SEEK_KEY k0 m (CHR 0x22 # s) v r"
  using assms unfolding object_parses_def
  by (elim exE, rule_tac x = "Suc f" in exI) (simp add: object_round_def)

lemma op_colon:
  "object_parses ord PS_SEEK_VAL k m s v r \<Longrightarrow> object_parses ord PS_SEEK_SEP k m (CHR '':'' # s) v r"
  unfolding object_parses_def
  by (elim exE, rule_tac x = "Suc f" in exI) (simp add: object_round_def)

lemma op_comma:
  "object_parses ord PS_SEEK_KEY k m s v r \<Longrightarrow> object_parses ord PS_SEEK_OBJ_END k m (CHR '','' # s) v r"
  unfolding object_parses_def
  by (elim exE, rule_tac x = "Suc f" in exI) (simp add: object_round_def)

lemma op_value:
  assumes "value_parses ord s w t" and "s \<noteq> [] \<and> notWS (hd s)"
    and "object_parses ord PS_SEEK_OBJ_END k (map_put k w m) t v r"
  shows "object_parses ord PS_SEEK_VAL k m s v r"
proof -
  obtain f g where f: "\<And>a. parse_value ord f a s = Parsed w t"
      and g: "\<And>a. parse_object ord g a PS_SEEK_OBJ_END k (map_put k w m) t = Parsed v r"
    using assms(1,3) unfolding value_parses_def object_parses_def by blast
  let ?h = "max f g"
  have "parse_value ord ?h a s = Parsed w t" "parse_object ord ?h a PS_SEEK_OBJ_END k (map_put k w m) t = Parsed v r" for a
    using parse_value_mono[OF f] parse_object_mono[OF g] by simp_all
  then have "parse_object ord (Suc ?h) a PS_SEEK_VAL k m s = Parsed v r" for a
    using assms(2) by (cases s) (simp_all add: object_round_def)
  then show ?thesis unfolding object_parses_def by blast
qed

section \<open>Arrays\<close>

lemma ap_close:
  "st = PS_SEEK_VAL \<or> st = PS_SEEK_SEP \<Longrightarrow> array_parses ord st vs (CHR 0x5D # r) (VT_ARRAY vs) r"
  unfolding array_parses_def by (rule exI[of _ 1]) (auto simp: array_round_def)

lemma ap_comma:
  "array_parses ord PS_SEEK_VAL vs s v r \<Longrightarrow> array_parses ord PS_SEEK_SEP vs (CHR '','' # s) v r"
  unfolding array_parses_def
  by (elim exE, rule_tac x = "Suc f" in exI) (simp add: array_round_def)

lemma ap_value:
  assumes "value_parses ord s w t" and "s \<noteq> [] \<and> notWS (hd s) \<and> hd s \<noteq> CHR 0x5D"
    and "array_parses ord PS_SEEK_SEP (vs @ [w]) t v r"
  shows "array_parses ord PS_SEEK_VAL vs s v r"
proof -
  obtain f g where f: "\<And>a. parse_value ord f a s = Parsed w t"
      and g: "\<And>a. parse_array ord g a PS_SEEK_SEP (vs @ [w]) t = Parsed v r"
    using assms(1,3) unfolding value_parses_def array_parses_def by blast
  let ?h = "max f g"
  have "parse_value ord ?h a s = Parsed w t" "parse_array ord ?h a PS_SEEK_SEP (vs @ [w]) t = Parsed v r" for a
    using parse_value_mono[OF f] parse_array_mono[OF g] by simp_all
  then have "parse_array ord (Suc ?h) a PS_SEEK_VAL vs s = Parsed v r" for a
    using assms(2) by (cases s) (simp_all add: array_round_def)
  then show ?thesis unfolding array_parses_def by blast
qed

section \<open>Documents\<close>

lemma dp_object: "object_parses ord PS_SEEK_KEY [] [] s v [] \<Longrightarrow> document_parses ord (CHR 0x7B # s) v"
proof -
  assume "object_parses ord PS_SEEK_KEY [] [] s v []"
  then obtain f where "\<And>a. parse_object ord f a PS_SEEK_KEY [] [] s = Parsed v []"
    unfolding object_parses_def by blast
  then have "parse_object ord (Suc f) a PS_SEEK_KEY [] [] s = Parsed v []" for a :: nat
    using parse_object_mono[of ord f a PS_SEEK_KEY "[]" "[]" s v "[]" "Suc f"] by simp
  then have "parse_document ord (Suc (Suc f)) PS_SEEK_BEG VT_NULL (CHR 0x7B # s) = Parsed v []"
    by (simp add: document_round_def del: parse_object.simps)
  then show ?thesis unfolding document_parses_def by blast
qed

lemma dp_array: "array_parses ord PS_SEEK_VAL [] s v [] \<Longrightarrow> document_parses ord (CHR 0x5B # s) v"
proof -
  assume "array_parses ord PS_SEEK_VAL [] s v []"
  then obtain f where "\<And>a. parse_array ord f a PS_SEEK_VAL [] s = Parsed v []"
    unfolding array_parses_def by blast
  then have "parse_array ord (Suc f) a PS_SEEK_VAL [] s = Parsed v []" for a
    using parse_array_mono[of ord f a PS_SEEK_VAL "[]" s v "[]" "Suc f"] by simp
  then have "parse_document ord (Suc (Suc f)) PS_SEEK_BEG VT_NULL (CHR 0x5B # s) = Parsed v []"
    by (simp add: document_round_def del: parse_array.simps)
  then show ?thesis unfolding document_parses_def by blast
qed

lemma fromString_document: "document_parses ord (c_str s) v \<Longrightarrow> fromString ord s = Return v"
  unfolding document_parses_def by (auto intro: fromString_Return)

lemma c_str_id: "CHR 0x00 \<notin> set s \<Longrightarrow> c_str s = s"
  by (auto simp: c_str_def takeWhile_eq_all_conv)

lemma plain_no_NUL: "plain s \<Longrightarrow> CHR 0x00 \<notin> set s"
proof -
  have "\<not> plain_char (CHR 0x00)" by (simp add: plain_char_def)
  then show "plain s \<Longrightarrow> CHR 0x00 \<notin> set s" unfolding plain_def by blast
qed

end
