(* ===== verification/Json_Safe.thy ===== *)
theory Json_Safe
  imports Json_Rules
begin

text \<open>
  With the operands of a unicode escape evaluated from left to right the parser reads nothing
  behind the end of the text, and every error it reports has a position inside the text.
\<close>

section \<open>Sane results\<close>

definition left_to_right :: eval_order where
  "left_to_right = [0, 1, 2, 3]"

text \<open>No over-read, and the position of an error counts at most \<open>n\<close> characters from the end.\<close>

definition sane :: "nat \<Rightarrow> 'a parsed \<Rightarrow> bool" where
  "sane n r \<longleftrightarrow> (case r of Overread \<Rightarrow> False | Failed msg k \<Rightarrow> k \<le> n | _ \<Rightarrow> True)"

lemma sane_simps [simp]:
  "sane n (Parsed v r)" "sane n (Failed msg k) \<longleftrightarrow> k \<le> n" "\<not> sane n Overread" "sane n No_fuel"
  by (simp_all add: sane_def)

lemma sane_if: "(b \<Longrightarrow> sane n x) \<Longrightarrow> (\<not> b \<Longrightarrow> sane n y) \<Longrightarrow> sane n (if b then x else y)"
  by simp

lemma sane_bind:
  "sane n r \<Longrightarrow> (\<And>x s. r = Parsed x s \<Longrightarrow> sane n (f x s)) \<Longrightarrow> sane n (bind_parsed r f)"
  by (cases r) simp_all

lemma sane_mono: "sane n r \<Longrightarrow> n \<le> k \<Longrightarrow> sane k r"
  by (cases r) simp_all

section \<open>Strings\<close>

lemma sane_hex_at: "k \<le> length s \<Longrightarrow> sane (length s) (hex_at s k)"
  by (auto simp: hex_at_def split: list.split option.split dest!: arg_cong[of "drop k s" _ length])

lemma hex_at_Parsed: "hex_at s k = Parsed h r \<Longrightarrow> k < length s"
  by (cases "k = length s") (auto simp: hex_at_def split: if_splits)

lemma sane_hex4: "sane (length s) (hex4 left_to_right s)"
proof -
  have "sane (length s) (hex_check [0, 1, 2, 3] s)"
    by (auto intro!: sane_bind sane_hex_at dest!: hex_at_Parsed intro: Suc_leI)
  then show ?thesis by (simp add: hex4_def left_to_right_def sane_bind)
qed

lemma sane_parse_chars:
  "length s \<le> n \<Longrightarrow> start \<le> n \<Longrightarrow> sane n (parse_chars left_to_right start acc s)"
proof (induction left_to_right start acc s rule: parse_chars.induct)
  case (2 start acc c cs)
  show ?case
  proof (cases "c = CHR 0x5C")
    case False
    then show ?thesis using 2 by simp
  next
    case True
    show ?thesis
    proof (cases cs)
      case (Cons e es)
      have "sane n (hex4 left_to_right es)"
        using 2(4) by (intro sane_mono[OF sane_hex4]) (simp add: Cons)
      then show ?thesis
        using 2(1,2)[OF True Cons] 2(4,5) True
        by (auto simp: Cons intro!: sane_bind split: option.split)
    qed (use True 2(4) in simp)
  qed
qed simp

lemma sane_parseString: "length s \<le> n \<Longrightarrow> sane n (parseString left_to_right s)"
  by (simp add: parseString_def sane_parse_chars)

section \<open>Values, objects and arrays\<close>

text \<open>One round each, with calls that are sane on texts that are no longer.\<close>

lemma sane_value_round:
  assumes "length s \<le> n" and "a \<le> n"
    and "\<And>b x. length x \<le> n \<Longrightarrow> b \<le> n \<Longrightarrow> sane n (pv b x)"
    and "\<And>b t l w x. length x \<le> n \<Longrightarrow> b \<le> n \<Longrightarrow> sane n (po b t l w x)"
    and "\<And>b t ws x. length x \<le> n \<Longrightarrow> b \<le> n \<Longrightarrow> sane n (pa b t ws x)"
  shows "sane n (value_round left_to_right pv po pa a s)"
proof (cases s)
  case (Cons c cs)
  have "Suc (length cs) \<le> n" using assms(1) by (simp add: Cons)
  then show ?thesis
    unfolding value_round_def Cons list.case keyword_def parseNumber_def
    by (intro sane_if assms sane_bind sane_parseString; simp add: assms)
qed (use assms in \<open>simp add: value_round_def\<close>)

lemma sane_object_round:
  assumes s: "length s \<le> n" and a: "a \<le> n"
    and pv: "sane n (pv (length s) s)" and pvr: "\<And>v r. pv (length s) s = Parsed v r \<Longrightarrow> length r \<le> length s"
    and po: "\<And>t l w x. length x \<le> n \<Longrightarrow> sane n (po a t l w x)"
  shows "sane n (object_round left_to_right pv po a st k m s)"
proof (cases s)
  case (Cons c cs)
  have cs: "Suc (length cs) \<le> n" using s by (simp add: Cons)
  have key: "parseString left_to_right cs = Parsed l x \<Longrightarrow> Suc (length x) \<le> n" for l x
    using parseString_rest[of left_to_right cs l x] cs by simp
  have rest: "(\<exists>l. parseString left_to_right cs = Parsed l x) \<or> (\<exists>v. pv (Suc (length cs)) (c # cs) = Parsed v x) \<Longrightarrow>
      sane n (po a t l w x)" for x t l w
    using key[of _ x] pvr[of _ x] s by (intro po) (auto simp: Cons)
  have next_char: "sane n (po a t l w cs)" for t l w using cs by (intro po) simp
  have ps: "sane n (parseString left_to_right cs)" using cs by (intro sane_parseString) simp
  show ?thesis
    unfolding object_round_def Cons
    by (cases st) (use cs pv in \<open>auto intro!: sane_if sane_bind next_char ps key rest simp: Cons\<close>)
qed (use a in \<open>simp add: object_round_def\<close>)

lemma sane_array_round:
  assumes s: "length s \<le> n" and a: "a \<le> n"
    and pv: "sane n (pv (length s) s)" and pvr: "\<And>v r. pv (length s) s = Parsed v r \<Longrightarrow> length r \<le> length s"
    and pa: "\<And>t ws x. length x \<le> n \<Longrightarrow> sane n (pa a t ws x)"
  shows "sane n (array_round pv pa a st vs s)"
proof (cases s)
  case (Cons c cs)
  have cs: "Suc (length cs) \<le> n" using s by (simp add: Cons)
  have val: "pv (Suc (length cs)) (c # cs) = Parsed v r \<Longrightarrow> sane n (pa a t ws r)" for v r t ws
    using pvr[of v r] s by (intro pa) (simp add: Cons)
  have next_char: "sane n (pa a t ws cs)" for t ws using cs by (intro pa) simp
  show ?thesis
    unfolding array_round_def Cons
    by (cases st) (use cs pv in \<open>auto intro!: sane_if sane_bind next_char val simp: Cons\<close>)
qed (use a in \<open>simp add: array_round_def\<close>)

lemma parsers_sane:
  "length s \<le> n \<Longrightarrow> a \<le> n \<Longrightarrow>
     sane n (parse_value left_to_right f a s) \<and> sane n (parse_object left_to_right f a st k m s) \<and>
     sane n (parse_array left_to_right f a st vs s)"
proof (induction f arbitrary: s a st k m vs)
  case (Suc f)
  have V: "length x \<le> n \<Longrightarrow> b \<le> n \<Longrightarrow> sane n (parse_value left_to_right f b x)"
    and O: "length x \<le> n \<Longrightarrow> b \<le> n \<Longrightarrow> sane n (parse_object left_to_right f b t l w x)"
    and A: "length x \<le> n \<Longrightarrow> b \<le> n \<Longrightarrow> sane n (parse_array left_to_right f b t ws x)"
    for x b t l w ws using Suc.IH by blast+
  have rest: "parse_value left_to_right f b s = Parsed v r \<Longrightarrow> length r \<le> length s" for b v r
    using parse_value_rest[of left_to_right f b s v r] by simp
  show ?case
    unfolding parse_value.simps parse_object.simps parse_array.simps
    using Suc.prems V O A rest
    by (intro conjI sane_value_round sane_object_round sane_array_round) blast+
qed simp

lemma parse_document_sane: "length s \<le> n \<Longrightarrow> sane n (parse_document left_to_right f st v s)"
proof (induction f arbitrary: st v s)
  case (Suc f)
  have O: "length x \<le> n \<Longrightarrow> sane n (parse_object left_to_right f (length x) t l w x)"
    and A: "length x \<le> n \<Longrightarrow> sane n (parse_array left_to_right f (length x) t ws x)" for x t l w ws
    using parsers_sane[of x n "length x" f t l w ws] by simp_all
  show ?case
    unfolding parse_document.simps document_round_def using Suc.prems
    by (cases s; cases st)
      (auto intro!: sane_if sane_bind O A Suc.IH dest!: parse_object_rest parse_array_rest)
qed simp

lemma fromString_sane:
  "(\<exists>v. fromString left_to_right s = Return v) \<or>
   (\<exists>msg n. n \<le> length (c_str s) \<and> fromString left_to_right s = Throw (parse_error msg (length (c_str s) - n)))"
proof -
  have "sane (length (c_str s)) (parse_document left_to_right (parse_fuel (c_str s)) PS_SEEK_BEG VT_NULL (c_str s))"
    by (rule parse_document_sane) simp
  then show ?thesis
    using fromString_fuel[of left_to_right "c_str s"]
    by (auto simp: fromString_def Let_def split: parsed.splits)
qed

end
