(* ===== verification/Json_Text.thy ===== *)
theory Json_Text
  imports Json_Rules
begin

text \<open>
  Texts of values: what a piece of text must satisfy to stand for a value inside a document, as
  a predicate and as the locale \<open>json_text\<close> for a way of writing elements; arrays and objects
  built from such texts are parsed to the arrays and objects of their values.
\<close>

section \<open>A text for a value\<close>

text \<open>What can follow a value inside a document.\<close>

definition closes :: "string \<Rightarrow> bool" where
  "closes r \<longleftrightarrow> r \<noteq> [] \<and> (hd r = CHR '','' \<or> hd r = CHR 0x5D \<or> hd r = CHR 0x7D)"

lemma closes_simps [simp]:
  "closes (CHR '','' # r)" "closes (CHR 0x5D # r)" "closes (CHR 0x7D # r)"
  by (simp_all add: closes_def)

definition value_text :: "eval_order \<Rightarrow> string \<Rightarrow> Value \<Rightarrow> bool" where
  "value_text ord t v \<longleftrightarrow> t \<noteq> [] \<and> notWS (hd t) \<and> hd t \<noteq> CHR 0x5D \<and>
     (\<forall>r. closes r \<longrightarrow> value_parses ord (t @ r) v r)"

lemma value_textD: "value_text ord t v \<Longrightarrow> closes r \<Longrightarrow> value_parses ord (t @ r) v r"
  by (simp add: value_text_def)

lemma value_text_hd:
  "value_text ord t v \<Longrightarrow> t @ r \<noteq> [] \<and> notWS (hd (t @ r)) \<and> hd (t @ r) \<noteq> CHR 0x5D"
  by (cases t) (simp_all add: value_text_def)

text \<open>Texts joined by commas.\<close>

fun commas :: "string list \<Rightarrow> string" where
  "commas [] = []"
| "commas (t # ts) = t @ concat (map (\<lambda>u. '','' @ u) ts)"

section \<open>Arrays\<close>

locale json_text =
  fixes ord :: eval_order and ok :: "'a \<Rightarrow> bool" and tx :: "'a \<Rightarrow> string" and val :: "'a \<Rightarrow> Value"
  assumes text_ok: "ok x \<Longrightarrow> value_text ord (tx x) (val x)"
begin

lemma rest_items:
  "\<forall>x \<in> set xs. ok x \<Longrightarrow>
     array_parses ord PS_SEEK_SEP vs (concat (map (\<lambda>x. '','' @ tx x) xs) @ CHR 0x5D # r)
       (VT_ARRAY (vs @ map val xs)) r"
proof (induction xs arbitrary: vs)
  case (Cons x xs)
  let ?rest = "concat (map (\<lambda>x. '','' @ tx x) xs) @ CHR 0x5D # r"
  have t: "value_text ord (tx x) (val x)" using Cons.prems by (simp add: text_ok)
  have c: "closes ?rest" by (cases xs) simp_all
  have "array_parses ord PS_SEEK_SEP (vs @ [val x]) ?rest (VT_ARRAY ((vs @ [val x]) @ map val xs)) r"
    using Cons.prems by (intro Cons.IH) simp
  from ap_value[OF value_textD[OF t c] value_text_hd[OF t] this] show ?case
    by (simp add: ap_comma)
qed (simp add: ap_close)

lemma items:
  "\<forall>x \<in> set xs. ok x \<Longrightarrow>
     array_parses ord PS_SEEK_VAL [] (commas (map tx xs) @ CHR 0x5D # r) (VT_ARRAY (map val xs)) r"
proof (cases xs)
  case (Cons x ys)
  assume ok: "\<forall>x \<in> set xs. ok x"
  let ?rest = "concat (map (\<lambda>x. '','' @ tx x) ys) @ CHR 0x5D # r"
  have t: "value_text ord (tx x) (val x)" using ok Cons by (simp add: text_ok)
  have c: "closes ?rest" by (cases ys) simp_all
  have "array_parses ord PS_SEEK_SEP [val x] ?rest (VT_ARRAY ([val x] @ map val ys)) r"
    using ok Cons by (intro rest_items) simp
  then have "array_parses ord PS_SEEK_VAL [] (tx x @ ?rest) (VT_ARRAY ([val x] @ map val ys)) r"
    using ap_value[OF value_textD[OF t c] value_text_hd[OF t], of "[]"] by simp
  then show ?thesis by (simp add: Cons o_def)
qed (simp add: ap_close)

lemma array_text: "\<forall>x \<in> set xs. ok x \<Longrightarrow> value_text ord (''['' @ commas (map tx xs) @ '']'') (VT_ARRAY (map val xs))"
  unfolding value_text_def by (auto simp: notWS_def intro!: vp_array items)

lemma array_document: "\<forall>x \<in> set xs. ok x \<Longrightarrow> document_parses ord (''['' @ commas (map tx xs) @ '']'') (VT_ARRAY (map val xs))"
  using items[of xs "[]"] by (simp add: dp_array)

end

section \<open>Atoms\<close>

definition quoted :: "string \<Rightarrow> string" where
  "quoted s = CHR 0x22 # s @ [CHR 0x22]"

lemma quoted_text: "plain s \<Longrightarrow> value_text ord (quoted s) (VT_STRING s)"
  by (auto simp: value_text_def quoted_def notWS_def intro!: vp_string parseString_plain)

lemma closes_number_end: "closes r \<Longrightarrow> number_end r"
  by (auto simp: closes_def number_end_def is_digit_def lower_def)

lemma number_text: "value_text ord (to_string n) (VT_NUMBER (dbl_of_ratio (int n) 1))"
proof -
  obtain c cs where s: "to_string n = c # cs" by (cases "to_string n") auto
  have "is_digit c" using to_string_digits[of c n] by (simp add: s)
  then show ?thesis
    using vp_number[of _ ord n] digit_not_structural[of c] closes_number_end
    by (simp add: value_text_def s)
qed

interpretation strings: json_text ord plain quoted VT_STRING for ord
  by unfold_locales (rule quoted_text)

interpretation numbers: json_text ord "\<lambda>_. True" to_string "\<lambda>n. VT_NUMBER (dbl_of_ratio (int n) 1)" for ord
  by unfold_locales (rule number_text)

section \<open>Objects\<close>

text \<open>A member is a key, the text of its value, and the value.\<close>

type_synonym json_member = "string \<times> string \<times> Value"

definition member_text :: "json_member \<Rightarrow> string" where
  "member_text m = quoted (fst m) @ '':'' @ fst (snd m)"

definition member_ok :: "eval_order \<Rightarrow> json_member \<Rightarrow> bool" where
  "member_ok ord m \<longleftrightarrow> plain (fst m) \<and> fst m \<noteq> [] \<and> value_text ord (fst (snd m)) (snd (snd m))"

definition put_member :: "(string \<times> Value) list \<Rightarrow> json_member \<Rightarrow> (string \<times> Value) list" where
  "put_member m e = map_put (fst e) (snd (snd e)) m"

definition object_of :: "json_member list \<Rightarrow> Value" where
  "object_of ms = VT_OBJECT (Object (foldl put_member [] ms) It_end)"

lemma member_parses:
  assumes "member_ok ord e" and "closes t"
    and "object_parses ord PS_SEEK_OBJ_END (fst e) (put_member m e) t v r"
  shows "object_parses ord PS_SEEK_KEY k m (member_text e @ t) v r"
proof -
  have tv: "value_text ord (fst (snd e)) (snd (snd e))" and key: "plain (fst e)" "fst e \<noteq> []"
    using assms(1) by (simp_all add: member_ok_def)
  have "object_parses ord PS_SEEK_VAL (fst e) m (fst (snd e) @ t) v r"
    using op_value[OF value_textD[OF tv assms(2)] _ assms(3)[unfolded put_member_def]] value_text_hd[OF tv]
    by blast
  then have "object_parses ord PS_SEEK_SEP (fst e) m (CHR '':'' # fst (snd e) @ t) v r" by (rule op_colon)
  from op_key[OF parseString_plain[OF key(1)] key(2) this] show ?thesis
    by (simp add: member_text_def quoted_def)
qed

lemma members_rest:
  "\<forall>e \<in> set ms. member_ok ord e \<Longrightarrow>
     object_parses ord PS_SEEK_OBJ_END k m (concat (map (\<lambda>e. '','' @ member_text e) ms) @ CHR 0x7D # r)
       (VT_OBJECT (Object (foldl put_member m ms) It_end)) r"
proof (induction ms arbitrary: k m)
  case (Cons e ms)
  let ?rest = "concat (map (\<lambda>e. '','' @ member_text e) ms) @ CHR 0x7D # r"
  have "closes ?rest" by (cases ms) simp_all
  with Cons have "object_parses ord PS_SEEK_KEY k m (member_text e @ ?rest)
      (VT_OBJECT (Object (foldl put_member (put_member m e) ms) It_end)) r"
    by (intro member_parses) simp_all
  then show ?case by (simp add: op_comma)
qed (simp add: op_close)

lemma members_parse:
  assumes "\<forall>e \<in> set ms. member_ok ord e"
  shows "object_parses ord PS_SEEK_KEY [] [] (commas (map member_text ms) @ CHR 0x7D # r) (object_of ms) r"
proof (cases ms)
  case (Cons e es)
  let ?rest = "concat (map (\<lambda>e. '','' @ member_text e) es) @ CHR 0x7D # r"
  have c: "closes ?rest" by (cases es) simp_all
  have ok: "member_ok ord e" "\<forall>e \<in> set es. member_ok ord e" using assms Cons by simp_all
  have "object_parses ord PS_SEEK_KEY [] [] (member_text e @ ?rest) (object_of ms) r"
    using member_parses[OF ok(1) c members_rest[OF ok(2)]] by (simp add: object_of_def Cons)
  then show ?thesis by (simp add: Cons o_def)
qed (simp add: op_close object_of_def)

definition object_text :: "json_member list \<Rightarrow> string" where
  "object_text ms = ''{'' @ commas (map member_text ms) @ ''}''"

lemma object_value_text:
  "\<forall>e \<in> set ms. member_ok ord e \<Longrightarrow> value_text ord (object_text ms) (object_of ms)"
  unfolding value_text_def object_text_def by (auto simp: notWS_def intro!: vp_object members_parse)

lemma object_document:
  "\<forall>e \<in> set ms. member_ok ord e \<Longrightarrow> document_parses ord (object_text ms) (object_of ms)"
  using members_parse[of ms ord "[]"] by (simp add: object_text_def dp_object)

interpretation objects: json_text ord "\<lambda>ms. \<forall>e \<in> set ms. member_ok ord e" object_text object_of for ord
  by unfold_locales (rule object_value_text)

end
