(* ===== verification/Fpconv.thy ===== *)
theory Fpconv
  imports Double "HOL-Library.Signed_Division"
begin

unbundle bit_operations_syntax

text \<open>
  The conversion of a double to decimal digits at the end of \<open>server/libjson.hpp\<close> (the Grisu2
  algorithm). \<open>uint64_t\<close> is a 64-bit word, \<open>int\<close> an \<open>int\<close>: exponents stay within some thousands,
  far from the limits of 32 bits. \<open>None\<close> stands for a read or write outside of an array and for
  a loop that does not end.
\<close>

section \<open>Numbers with a 64-bit significand\<close>

record Fp =
  fp_frac :: u64
  fp_exp :: int

definition fracmask :: u64 where "fracmask = 0x000FFFFFFFFFFFFF"
definition expmask :: u64 where "expmask = 0x7FF0000000000000"
definition hiddenbit :: u64 where "hiddenbit = 0x0010000000000000"
definition signmask :: u64 where "signmask = 0x8000000000000000"

definition expbias :: int where "expbias = 1023 + 52"

definition tens :: "u64 list" where
  "tens =
     [10000000000000000000, 1000000000000000000, 100000000000000000, 10000000000000000,
      1000000000000000, 100000000000000, 10000000000000, 1000000000000, 100000000000,
      10000000000, 1000000000, 100000000, 10000000, 1000000, 100000, 10000, 1000, 100, 10, 1]"

text \<open>Powers of ten from \<open>10 ^ -348\<close> in steps of \<open>10 ^ 8\<close>: significand and binary exponent.\<close>

definition powers_ten :: "(u64 \<times> int) list" where
  "powers_ten =
     [
      (18054884314459144840, -1220), (13451937075301367670, -1193), (10022474136428063862, -1166), (14934650266808366570, -1140),
      (11127181549972568877, -1113), (16580792590934885855, -1087), (12353653155963782858, -1060), (18408377700990114895, -1034),
      (13715310171984221708, -1007), (10218702384817765436, -980), (15227053142812498563, -954), (11345038669416679861, -927),
      (16905424996341287883, -901), (12595523146049147757, -874), (9384396036005875287, -847), (13983839803942852151, -821),
      (10418772551374772303, -794), (15525180923007089351, -768), (11567161174868858868, -741), (17236413322193710309, -715),
      (12842128665889583758, -688), (9568131466127621947, -661), (14257626930069360058, -635), (10622759856335341974, -608),
      (15829145694278690180, -582), (11793632577567316726, -555), (17573882009934360870, -529), (13093562431584567480, -502),
      (9755464219737475723, -475), (14536774485912137811, -449), (10830740992659433045, -422), (16139061738043178685, -396),
      (12024538023802026127, -369), (17917957937422433684, -343), (13349918974505688015, -316), (9946464728195732843, -289),
      (14821387422376473014, -263), (11042794154864902060, -236), (16455045573212060422, -210), (12259964326927110867, -183),
      (18268770466636286478, -157), (13611294676837538539, -130), (10141204801825835212, -103), (15111572745182864684, -77),
      (11258999068426240000, -50), (16777216000000000000, -24), (12500000000000000000, 3), (9313225746154785156, 30),
      (13877787807814456755, 56), (10339757656912845936, 83), (15407439555097886824, 109), (11479437019748901445, 136),
      (17105694144590052135, 162), (12744735289059618216, 189), (9495567745759798747, 216), (14149498560666738074, 242),
      (10542197943230523224, 269), (15709099088952724970, 295), (11704190886730495818, 322), (17440603504673385349, 348),
      (12994262207056124023, 375), (9681479787123295682, 402), (14426529090290212157, 428), (10748601772107342003, 455),
      (16016664761464807395, 481), (11933345169920330789, 508), (17782069995880619868, 534), (13248674568444952270, 561),
      (9871031767461413346, 588), (14708983551653345445, 614), (10959046745042015199, 641), (16330252207878254650, 667),
      (12166986024289022870, 694), (18130221999122236476, 720), (13508068024458167312, 747), (10064294952495520794, 774),
      (14996968138956309548, 800), (11173611982879273257, 827), (16649979327439178909, 853), (12405201291620119593, 880),
      (9242595204427927429, 907), (13772540099066387757, 933), (10261342003245940623, 960), (15290591125556738113, 986),
      (11392378155556871081, 1013), (16975966327722178521, 1039), (12648080533535911531, 1066)]"

definition build_fp :: "double \<Rightarrow> Fp" where
  "build_fp d =
     (let frac = d AND fracmask;
          e = uint (drop_bit 52 (d AND expmask))
      in if e \<noteq> 0 then \<lparr> fp_frac = frac + hiddenbit, fp_exp = e - expbias \<rparr>
         else \<lparr> fp_frac = frac, fp_exp = - expbias + 1 \<rparr>)"

text \<open>The loop that shifts a significand up until a given bit is set.\<close>

partial_function (option) shift_until :: "u64 \<Rightarrow> Fp \<Rightarrow> Fp option" where
  "shift_until b fp =
     (if fp_frac fp AND b = 0
      then shift_until b \<lparr> fp_frac = push_bit 1 (fp_frac fp), fp_exp = fp_exp fp - 1 \<rparr>
      else Some fp)"

declare shift_until.simps [code]

definition shift_left :: "Fp \<Rightarrow> nat \<Rightarrow> Fp" where
  "shift_left fp k = \<lparr> fp_frac = push_bit k (fp_frac fp), fp_exp = fp_exp fp - int k \<rparr>"

definition normalize :: "Fp \<Rightarrow> Fp option" where
  "normalize fp = map_option (\<lambda>x. shift_left x (64 - 52 - 1)) (shift_until hiddenbit fp)"

text \<open>The two neighbours half-way to the next doubles, first lower then upper.\<close>

definition get_normalized_boundaries :: "Fp \<Rightarrow> (Fp \<times> Fp) option" where
  "get_normalized_boundaries fp =
     (case shift_until (push_bit 1 hiddenbit)
             \<lparr> fp_frac = push_bit 1 (fp_frac fp) + 1, fp_exp = fp_exp fp - 1 \<rparr> of
        None \<Rightarrow> None
      | Some u \<Rightarrow>
          (let up = shift_left u (64 - 52 - 2);
               l_shift = (if fp_frac fp = hiddenbit then 2 else 1);
               lo = \<lparr> fp_frac = push_bit l_shift (fp_frac fp) - 1, fp_exp = fp_exp fp - int l_shift \<rparr>;
               k = fp_exp lo - fp_exp up
           in if k < 0 \<or> k \<ge> 64 then None
              else Some (\<lparr> fp_frac = push_bit (nat k) (fp_frac lo), fp_exp = fp_exp up \<rparr>, up)))"

definition multiply :: "Fp \<Rightarrow> Fp \<Rightarrow> Fp" where
  "multiply a b =
     (let lomask = 0x00000000FFFFFFFF;
          ah_bl = drop_bit 32 (fp_frac a) * (fp_frac b AND lomask);
          al_bh = (fp_frac a AND lomask) * drop_bit 32 (fp_frac b);
          al_bl = (fp_frac a AND lomask) * (fp_frac b AND lomask);
          ah_bh = drop_bit 32 (fp_frac a) * drop_bit 32 (fp_frac b);
          tmp = (ah_bl AND lomask) + (al_bh AND lomask) + drop_bit 32 al_bl;
          tmp1 = tmp + push_bit 31 1
      in \<lparr> fp_frac = ah_bh + drop_bit 32 ah_bl + drop_bit 32 al_bh + drop_bit 32 tmp1,
           fp_exp = fp_exp a + fp_exp b + 64 \<rparr>)"

section \<open>The cached power of ten\<close>

text \<open>
  The product of an \<open>int\<close> and a double is the exact product, rounded; converting it to \<open>int\<close>
  drops the fraction. \<open>one_log_ten\<close> is the double nearest to the literal of the source.
\<close>

definition one_log_ten :: double where
  "one_log_ten = dbl_of_ratio 30102999566398114 (10 ^ 17)"

definition int_times_dbl :: "int \<Rightarrow> double \<Rightarrow> double" where
  "int_times_dbl n d =
     (let m = \<bar>n\<bar> * dbl_significand d; e = dbl_scale d
      in dbl_sign (n < 0) (if e \<ge> 0 then dbl_of_ratio (m * 2 ^ nat e) 1 else dbl_of_ratio m (2 ^ nat (- e))))"

text \<open>The search from the guess; one unit of fuel per step.\<close>

fun find_pow10_loop :: "nat \<Rightarrow> int \<Rightarrow> int \<Rightarrow> (Fp \<times> int) option" where
  "find_pow10_loop 0 e idx = None"
| "find_pow10_loop (Suc f) e idx =
     (if idx < 0 \<or> idx \<ge> int (length powers_ten) then None
      else
        (let p = powers_ten ! nat idx; current = e + snd p + 64 in
         if current < -60 then find_pow10_loop f e (idx + 1)
         else if current > -32 then find_pow10_loop f e (idx - 1)
         else Some (\<lparr> fp_frac = fst p, fp_exp = snd p \<rparr>, -348 + idx * 8)))"

definition find_cachedpow10 :: "int \<Rightarrow> (Fp \<times> int) option" where
  "find_cachedpow10 e =
     (let approx = dbl_trunc (int_times_dbl (- (e + 87)) one_log_ten);
          idx = (approx - (-348)) sdiv 8
      in find_pow10_loop 87 e idx)"

section \<open>Digits\<close>

text \<open>\<open>digits[ndigits - 1]--\<close>\<close>

definition dec_last :: "string \<Rightarrow> string" where
  "dec_last ds = butlast ds @ [char_of ((of_char (last ds) :: nat) + 255)]"

partial_function (option) round_digit :: "string \<Rightarrow> u64 \<Rightarrow> u64 \<Rightarrow> u64 \<Rightarrow> u64 \<Rightarrow> string option" where
  "round_digit ds delta rem kappa frac =
     (if rem < frac \<and> delta - rem \<ge> kappa \<and> (rem + kappa < frac \<or> frac - rem > rem + kappa - frac)
      then (if ds = [] then None else round_digit (dec_last ds) delta (rem + kappa) kappa frac)
      else Some ds)"

declare round_digit.simps [code]

text \<open>\<open>digits[idx++] = digit + '0'\<close>, unless the digit is a leading zero; the array has 18 places.\<close>

definition put_digit :: "string \<Rightarrow> u64 \<Rightarrow> string option" where
  "put_digit ds q =
     (let digit = (ucast q :: 32 word) in
      if digit = 0 \<and> ds = [] then Some ds
      else if length ds \<ge> 18 then None
      else Some (ds @ [char_of ((unat digit + 48) mod 256)]))"

text \<open>The second loop, over the digits behind the point; \<open>units\<close> are \<open>10, 100, \<dots>\<close>.\<close>

fun fraction_digits ::
  "u64 list \<Rightarrow> int \<Rightarrow> u64 \<Rightarrow> u64 \<Rightarrow> u64 \<Rightarrow> nat \<Rightarrow> string \<Rightarrow> int \<Rightarrow> (string \<times> int) option"
where
  "fraction_digits [] K wfrac part2 delta one_exp ds kappa = None"
| "fraction_digits (unit # units) K wfrac part2 delta one_exp ds kappa =
     (let p = part2 * 10; delta1 = delta * 10; kappa1 = kappa - 1;
          one_frac = push_bit one_exp 1;
          p1 = p AND (one_frac - 1)
      in case put_digit ds (drop_bit one_exp p) of
           None \<Rightarrow> None
         | Some ds1 \<Rightarrow>
             if p1 < delta1
             then map_option (\<lambda>x. (x, K + kappa1)) (round_digit ds1 delta1 p1 one_frac (wfrac * unit))
             else fraction_digits units K wfrac p1 delta1 one_exp ds1 kappa1)"

text \<open>The first loop, over the digits before the point.\<close>

fun integer_digits ::
  "u64 list \<Rightarrow> int \<Rightarrow> u64 \<Rightarrow> u64 \<Rightarrow> u64 \<Rightarrow> u64 \<Rightarrow> nat \<Rightarrow> string \<Rightarrow> int \<Rightarrow> (string \<times> int) option"
where
  "integer_digits [] K wfrac part1 part2 delta one_exp ds kappa =
     fraction_digits (rev (take 19 tens)) K wfrac part2 delta one_exp ds kappa"
| "integer_digits (divisor # divs) K wfrac part1 part2 delta one_exp ds kappa =
     (let digit = (ucast (part1 div divisor) :: 32 word);
          part1' = part1 - ucast digit * divisor;
          kappa1 = kappa - 1;
          tmp = push_bit one_exp part1' + part2
      in case put_digit ds (part1 div divisor) of
           None \<Rightarrow> None
         | Some ds1 \<Rightarrow>
             if tmp \<le> delta
             then map_option (\<lambda>x. (x, K + kappa1)) (round_digit ds1 delta tmp (push_bit one_exp divisor) wfrac)
             else integer_digits divs K wfrac part1' part2 delta one_exp ds1 kappa1)"

definition generate_digits :: "Fp \<Rightarrow> Fp \<Rightarrow> Fp \<Rightarrow> int \<Rightarrow> (string \<times> int) option" where
  "generate_digits fp up lo K =
     (let wfrac = fp_frac up - fp_frac fp;
          delta = fp_frac up - fp_frac lo;
          e = - fp_exp up
      in if e < 0 \<or> e \<ge> 64 then None
         else
           (let one_exp = nat e; one_frac = push_bit one_exp (1 :: u64);
                part1 = drop_bit one_exp (fp_frac up);
                part2 = fp_frac up AND (one_frac - 1)
            in integer_digits (drop 10 tens) K wfrac part1 part2 delta one_exp [] 10))"

definition grisu2 :: "double \<Rightarrow> (string \<times> int) option" where
  "grisu2 d =
     (let w = build_fp d in
      case get_normalized_boundaries w of
        None \<Rightarrow> None
      | Some (lo, up) \<Rightarrow>
          (case normalize w of
             None \<Rightarrow> None
           | Some w1 \<Rightarrow>
               (case find_cachedpow10 (fp_exp up) of
                  None \<Rightarrow> None
                | Some (cp, k) \<Rightarrow>
                    (let w2 = multiply w1 cp; up1 = multiply up cp; lo1 = multiply lo cp
                     in generate_digits w2 (up1\<lparr> fp_frac := fp_frac up1 - 1 \<rparr>)
                          (lo1\<lparr> fp_frac := fp_frac lo1 + 1 \<rparr>) (- k)))))"

section \<open>Text\<close>

text \<open>One decimal digit of an \<open>int\<close>.\<close>

definition digit_of :: "int \<Rightarrow> char" where
  "digit_of n = char_of (nat (n + 48))"

definition emit_exponent :: "int \<Rightarrow> string" where
  "emit_exponent e =
     (let cent = (if e > 99 then e div 100 else 0);
          e1 = e - cent * 100;
          dec = (if e1 > 9 then e1 div 10 else 0);
          e2 = e1 - dec * 10
      in (if e > 99 then [digit_of cent] else []) @
         (if e1 > 9 then [digit_of dec] else if cent \<noteq> 0 then ''0'' else []) @ [digit_of (e2 mod 10)])"

definition emit_digits :: "string \<Rightarrow> int \<Rightarrow> bool \<Rightarrow> string option" where
  "emit_digits digits K neg =
     (let ndigits = int (length digits); e = \<bar>K + ndigits - 1\<bar> in
      if K \<ge> 0 \<and> e < ndigits + 7 then Some (digits @ replicate (nat K) (CHR ''0''))
      else if K < 0 \<and> (K > -7 \<or> e < 4) then
        (let offset = ndigits - \<bar>K\<bar> in
         if offset \<le> 0 then Some (''0.'' @ replicate (nat (- offset)) (CHR ''0'') @ digits)
         else Some (take (nat offset) digits @ ''.'' @ drop (nat offset) digits))
      else if digits = [] then None
      else
        (let nd = min ndigits (18 - of_bool neg) in
         Some
           ([hd digits] @ (if nd > 1 then ''.'' @ take (nat (nd - 1)) (tl digits) else []) @
            ''e'' @ [if K + nd - 1 < 0 then CHR ''-'' else CHR ''+''] @ emit_exponent e)))"

text \<open>The special values; \<open>None\<close> for all others. Both zeros compare equal to \<open>0.0\<close>.\<close>

definition filter_special :: "double \<Rightarrow> string option" where
  "filter_special fp =
     (if \<not> cast_bool fp then Some ''0''
      else if fp AND expmask \<noteq> expmask then None
      else if fp AND fracmask \<noteq> 0 then Some ''nan''
      else Some ''inf'')"

definition fpconv_dtoa :: "double \<Rightarrow> string option" where
  "fpconv_dtoa d =
     (let neg = (d AND signmask \<noteq> 0);
          sign = (if neg then ''-'' else [])
      in case filter_special d of
           Some s \<Rightarrow> Some (sign @ s)
         | None \<Rightarrow> 
           (case grisu2 d of
              None \<Rightarrow> None
            | Some (digits, K) \<Rightarrow> map_option (\<lambda>t. sign @ t) (emit_digits digits K neg)))"

end
