(* ===== verification/Json_Print.thy ===== *)
theory Json_Print
  imports Json_Value Fpconv
begin

text \<open>
  Writing a value as text: \<open>toString\<close> of \<open>server/libjson.hpp\<close> and the functions it uses. All of them
  append to a buffer. \<open>None\<close> stands for undefined behaviour: a null string pointer is followed, or a
  number is written outside of the space made for it.
\<close>

section \<open>Strings\<close>

text \<open>\<open>*c < 0x20\<close>, where \<open>char\<close> is signed: the bytes from \<open>0x80\<close> on are negative.\<close>

definition below_space :: "char \<Rightarrow> bool" where
  "below_space c \<longleftrightarrow> (of_char c :: nat) < 0x20 \<or> (of_char c :: nat) \<ge> 0x80"

definition short_escape :: "char \<Rightarrow> string" where
  "short_escape c =
     (if c = CHR 0x08 then [CHR 0x5C, CHR ''b'']
      else if c = CHR 0x0C then [CHR 0x5C, CHR ''f'']
      else if c = CHR 0x0A then [CHR 0x5C, CHR ''n'']
      else if c = CHR 0x0D then [CHR 0x5C, CHR ''r'']
      else if c = CHR 0x09 then [CHR 0x5C, CHR ''t'']
      else [])"

text \<open>The loop: the stretch between the iterators \<open>a\<close> and \<open>c\<close>, and what is left from \<open>c\<close> on.\<close>

fun strToString_loop :: "string \<Rightarrow> string \<Rightarrow> string \<Rightarrow> string" where
  "strToString_loop a_buffer stretch [] = a_buffer @ stretch"
| "strToString_loop a_buffer stretch (c # cs) =
     (if below_space c then strToString_loop (a_buffer @ stretch @ short_escape c) [] cs
      else if c = CHR 0x22 then strToString_loop (a_buffer @ stretch @ [CHR 0x5C, CHR 0x22]) [] cs
      else if c = CHR 0x5C then strToString_loop (a_buffer @ stretch @ [CHR 0x5C, CHR 0x5C]) [] cs
      else strToString_loop a_buffer (stretch @ [c]) cs)"

definition strToString :: "string \<Rightarrow> string \<Rightarrow> string" where
  "strToString a_buffer a_value = strToString_loop (a_buffer @ [CHR 0x22]) [] a_value @ [CHR 0x22]"

section \<open>Numbers\<close>

text \<open>The buffer grows by 50 characters, of which the number uses the first.\<close>

definition numToString :: "string \<Rightarrow> double \<Rightarrow> string option" where
  "numToString a_buffer a_value =
     (case fpconv_dtoa a_value of
        None \<Rightarrow> None
      | Some t \<Rightarrow> if length t \<le> 50 then Some (a_buffer @ t) else None)"

section \<open>Values\<close>

text \<open>The loops over the members and the elements know whether they are at the first one.\<close>

fun toStringRecurse :: "string \<Rightarrow> Value \<Rightarrow> string option"
  and members_toString :: "string \<Rightarrow> bool \<Rightarrow> (string \<times> Value) list \<Rightarrow> string option"
  and elements_toString :: "string \<Rightarrow> bool \<Rightarrow> Value list \<Rightarrow> string option"
where
  "toStringRecurse a_buffer (VT_OBJECT (Object m i)) =
     map_option (\<lambda>b. b @ ''}'') (members_toString (a_buffer @ ''{'') True m)"
| "toStringRecurse a_buffer (VT_ARRAY vs) =
     map_option (\<lambda>b. b @ '']'') (elements_toString (a_buffer @ ''['') True vs)"
| "toStringRecurse a_buffer (VT_STRING s) = Some (strToString a_buffer s)"
| "toStringRecurse a_buffer VT_STRING_gone = None"
| "toStringRecurse a_buffer (VT_NUMBER n) = numToString a_buffer n"
| "toStringRecurse a_buffer (VT_BOOL b) = Some (a_buffer @ (if b then ''true'' else ''false''))"
| "toStringRecurse a_buffer VT_NULL = Some (a_buffer @ ''null'')"
| "members_toString a_buffer first [] = Some a_buffer"
| "members_toString a_buffer first ((k, v) # ms) =
     (case toStringRecurse
             (a_buffer @ (if first then [CHR 0x22] else [CHR '','', CHR 0x22]) @ k @ [CHR 0x22, CHR '':'']) v of
        None \<Rightarrow> None
      | Some b \<Rightarrow> members_toString b False ms)"
| "elements_toString a_buffer first [] = Some a_buffer"
| "elements_toString a_buffer first (v # vs) =
     (case toStringRecurse (a_buffer @ (if first then [] else '','')) v of
        None \<Rightarrow> None
      | Some b \<Rightarrow> elements_toString b False vs)"

definition toString :: "Value \<Rightarrow> string option" where
  "toString v = toStringRecurse [] v"

end
