(* ===== verification/Double_Round.thy ===== *)
theory Double_Round
  imports Complex_Main Double
begin

text \<open>
  Rounding a fraction to the nearest double, over the reals: the magnitude that the bits of a number
  stand for, the bits that \<open>dbl_of_ratio\<close> builds, and the rounding to integers.
\<close>

section \<open>Parts of a number that is put together\<close>

lemma double_parts:
  assumes "0 \<le> x" and "x < 2047" and "0 \<le> y" and "y < 2 ^ 52"
  shows "dbl_exponent (dbl_sign neg (word_of_int (x * 2 ^ 52 + y))) = x"
    and "dbl_fraction (dbl_sign neg (word_of_int (x * 2 ^ 52 + y))) = y"
    and "dbl_negative (dbl_sign neg (word_of_int (x * 2 ^ 52 + y))) = neg"
proof -
  let ?b = "x * 2 ^ 52 + y"
  have b: "0 \<le> ?b" "?b < 2 ^ 63" using assms by simp_all
  have u: "uint (word_of_int ?b :: u64) = ?b"
    using b unfolding uint_word_of_int_eq by (intro take_bit_int_eq_self) simp_all
  define z where "z = x + (if neg then 2048 else 0)"
  have "uint (dbl_sign neg (word_of_int ?b)) = ?b + (if neg then 2 ^ 63 else 0)"
  proof (cases neg)
    case True
    have "uint (word_of_int (?b + 2 ^ 63) :: u64) = ?b + 2 ^ 63"
      using b unfolding uint_word_of_int_eq by (intro take_bit_int_eq_self) simp_all
    with True show ?thesis by (simp add: dbl_sign_def u)
  next
    case False
    then show ?thesis unfolding dbl_sign_def using u by (simp only: if_False add_0_right)
  qed
  then have v: "uint (dbl_sign neg (word_of_int ?b)) = y + z * 2 ^ 52" by (simp add: z_def)
  have "(y + z * 2 ^ 52) mod 2 ^ 52 = y" unfolding mod_mult_self1 using assms(3,4) by simp
  then show "dbl_fraction (dbl_sign neg (word_of_int ?b)) = y"
    unfolding dbl_fraction_def v take_bit_eq_mod .
  have "(y + z * 2 ^ 52) div 2 ^ 52 = z" using assms(3,4) by (subst div_mult_self1) simp_all
  then show "dbl_exponent (dbl_sign neg (word_of_int ?b)) = x"
    using assms(1,2) unfolding dbl_exponent_def v drop_bit_eq_div take_bit_eq_mod by (simp add: z_def)
  show "dbl_negative (dbl_sign neg (word_of_int ?b)) = neg"
    using b assms unfolding dbl_negative_def v by (simp add: z_def)
qed

lemma round_half_even_le: "0 < d \<Longrightarrow> x \<le> m * d \<Longrightarrow> round_half_even x d \<le> m"
proof -
  assume d: "0 < d" and x: "x \<le> m * d"
  then have q: "x div d \<le> m" using zdiv_mono1[of x "m * d" d] by simp
  show "round_half_even x d \<le> m"
  proof (cases "x div d = m")
    case True
    then have "x mod d \<le> 0" using x div_mult_mod_eq[of x d] by simp
    with d True show ?thesis by (simp add: round_half_even_def Let_def)
  qed (use q in \<open>simp add: round_half_even_def Let_def\<close>)
qed

lemma round_half_even_ge: "0 < d \<Longrightarrow> m * d \<le> x \<Longrightarrow> m \<le> round_half_even x d"
  using zdiv_mono1[of "m * d" x d] by (simp add: round_half_even_def Let_def)

text \<open>Comparing with a power of two on either side of a fraction.\<close>

lemma powi_compare:
  fixes n d k :: int
  assumes "0 < d"
  shows "(if k \<ge> 0 then d * 2 ^ nat k \<le> n else d \<le> n * 2 ^ nat (- k)) \<longleftrightarrow>
    2 powi k \<le> real_of_int n / real_of_int d"
proof (cases "k \<ge> 0")
  case True
  then have "2 powi k \<le> real_of_int n / real_of_int d \<longleftrightarrow> real_of_int (d * 2 ^ nat k) \<le> real_of_int n"
    using assms by (simp add: power_int_def pos_le_divide_eq mult.commute)
  then show ?thesis using True by (simp only: of_int_le_iff if_True)
next
  case False
  then have "2 powi k \<le> real_of_int n / real_of_int d \<longleftrightarrow> real_of_int d \<le> real_of_int (n * 2 ^ nat (- k))"
    using assms by (simp add: power_int_def pos_le_divide_eq field_simps)
  then show ?thesis using False by (simp only: of_int_le_iff if_False)
qed

lemma bit_length_real:
  assumes "0 < n"
  shows "2 powi (bit_length n - 1) \<le> real_of_int n" and "real_of_int n < 2 powi bit_length n"
proof -
  have b: "bit_length n \<ge> 1" "2 ^ nat (bit_length n - 1) \<le> n" "n < 2 ^ nat (bit_length n)"
    using bit_length_bounds[OF assms] by auto
  have "real_of_int (2 ^ nat (bit_length n - 1)) \<le> real_of_int n" using b(2) by (simp only: of_int_le_iff)
  with b(1) show "2 powi (bit_length n - 1) \<le> real_of_int n" by (simp add: power_int_def)
  have "real_of_int n < real_of_int (2 ^ nat (bit_length n))" using b(3) by (simp only: of_int_less_iff)
  with b(1) show "real_of_int n < 2 powi bit_length n" by (simp add: power_int_def)
qed

lemma powi_less_imp: "(2 :: real) powi i < 2 powi j \<Longrightarrow> i < j"
  using power_int_increasing[of j i "2 :: real"] by fastforce

lemma ratio_log_bounds:
  assumes "0 < n" and "0 < d"
  shows "2 powi ratio_log n d \<le> real_of_int n / real_of_int d"
    and "real_of_int n / real_of_int d < 2 powi (ratio_log n d + 1)"
proof -
  let ?k = "bit_length n - bit_length d" and ?q = "real_of_int n / real_of_int d"
  note n = bit_length_real[OF assms(1)] and d = bit_length_real[OF assms(2)]
  have "?q < 2 powi bit_length n / 2 powi (bit_length d - 1)"
    using n(2) d(1) assms by (intro frac_less) simp_all
  then have up: "?q < 2 powi (?k + 1)" by (simp add: power_int_diff power_int_add)
  have "2 powi (bit_length n - 1) / 2 powi bit_length d < ?q"
    using n(1) d(2) assms by (intro frac_less2) simp_all
  then have low: "2 powi (?k - 1) \<le> ?q" by (simp add: power_int_diff power_int_add)
  show "2 powi ratio_log n d \<le> ?q" "?q < 2 powi (ratio_log n d + 1)"
    using up low unfolding ratio_log_def Let_def powi_compare[OF assms(2)] by auto
qed

section \<open>The value of a number\<close>

definition dbl_mag :: "double \<Rightarrow> real" where
  "dbl_mag d = of_int (dbl_significand d) * 2 powi dbl_scale d"

text \<open>A significand of at most 53 bits and an exponent, put together by addition.\<close>

lemma assembled:
  assumes "- 1074 \<le> e" and "e < 970" and "0 \<le> m" and "m \<le> 2 ^ 53" and "2 ^ 52 \<le> m \<or> e = - 1074"
  shows "dbl_mag (dbl_sign neg (word_of_int ((e + 1074) * 2 ^ 52 + m))) = of_int m * 2 powi e"
    and "dbl_finite (dbl_sign neg (word_of_int ((e + 1074) * 2 ^ 52 + m)))"
    and "dbl_negative (dbl_sign neg (word_of_int ((e + 1074) * 2 ^ 52 + m))) = neg"
proof -
  let ?b = "(e + 1074) * 2 ^ 52 + m"
  let ?d = "dbl_sign neg (word_of_int ?b)"
  consider "m < 2 ^ 52" "e = - 1074" | "2 ^ 52 \<le> m" "m < 2 ^ 53" | "m = 2 ^ 53"
    using assms by linarith
  then have "dbl_mag ?d = of_int m * 2 powi e \<and> dbl_finite ?d \<and> dbl_negative ?d = neg"
  proof cases
    case 1
    then have b: "?b = 0 * 2 ^ 52 + m" by simp
    note parts = double_parts[of 0 m neg, folded b]
    show ?thesis using 1 assms(3) parts
      by (simp add: dbl_mag_def dbl_significand_def dbl_scale_def dbl_finite_def)
  next
    case 2
    have b: "?b = (e + 1075) * 2 ^ 52 + (m - 2 ^ 52)" by simp
    have "0 \<le> e + 1075" "e + 1075 < 2047" "0 \<le> m - 2 ^ 52" "m - 2 ^ 52 < 2 ^ 52" "e + 1075 \<noteq> 0"
      using 2 assms(1,2) by simp_all
    note parts = double_parts[OF this(1-4), of neg, folded b] and nz = this(5)
    show ?thesis using parts assms(1,2) nz
      by (simp add: dbl_mag_def dbl_significand_def dbl_scale_def dbl_finite_def)
  next
    case 3
    then have b: "?b = (e + 1076) * 2 ^ 52 + 0" by simp
    have "0 \<le> e + 1076" "e + 1076 < 2047" "e + 1076 \<noteq> 0" using assms(1,2) by simp_all
    note nz = this(3)
    have "dbl_mag ?d = 2 ^ 52 * 2 powi (e + 1)"
      using double_parts[of "e + 1076" 0 neg, folded b] assms(1,2) nz
      by (simp add: dbl_mag_def dbl_significand_def dbl_scale_def add.commute)
    also have "\<dots> = of_int m * 2 powi e" by (simp add: 3 power_int_add add.commute)
    finally show ?thesis using double_parts[of "e + 1076" 0 neg, folded b] assms(1,2) by (simp add: dbl_finite_def)
  qed
  then show "dbl_mag ?d = of_int m * 2 powi e" "dbl_finite ?d" "dbl_negative ?d = neg" by simp_all
qed

lemma dbl_trunc_floor: "dbl_trunc d = (if dbl_negative d then - \<lfloor>dbl_mag d\<rfloor> else \<lfloor>dbl_mag d\<rfloor>)"
proof -
  have "\<lfloor>real_of_int s * 2 powi k\<rfloor> = (if k \<ge> 0 then s * 2 ^ nat k else s div 2 ^ nat (- k))" for s k
  proof (cases "k \<ge> 0")
    case True
    then have "real_of_int s * 2 powi k = real_of_int (s * 2 ^ nat k)" by (simp add: power_int_def)
    then show ?thesis using True by (simp only: floor_of_int if_True)
  next
    case False
    then have "real_of_int s * 2 powi k = real_of_int s / real_of_int (2 ^ nat (- k))"
      by (simp add: power_int_def field_simps)
    then show ?thesis using False by (simp only: floor_divide_of_int_eq if_False)
  qed
  then show ?thesis by (simp add: dbl_trunc_def dbl_mag_def Let_def)
qed

section \<open>Rounding a fraction\<close>

definition scaled_round :: "int \<Rightarrow> int \<Rightarrow> int \<Rightarrow> int" where
  "scaled_round n d e =
     (if e \<ge> 0 then round_half_even n (d * 2 ^ nat e) else round_half_even (n * 2 ^ nat (- e)) d)"

lemma scaled_fraction:
  fixes n d :: int
  assumes "0 < d"
  obtains x y where "0 < y" and "scaled_round n d e = round_half_even x y"
    and "real_of_int x / real_of_int y = real_of_int n / real_of_int d / 2 powi e"
proof (cases "e \<ge> 0")
  case True
  with assms show ?thesis
    by (intro that[of "d * 2 ^ nat e" n]) (simp_all add: scaled_round_def power_int_def)
next
  case False
  with assms show ?thesis
    by (intro that[of d "n * 2 ^ nat (- e)"]) (simp_all add: scaled_round_def power_int_def field_simps)
qed

lemma scaled_round_le:
  assumes "0 < d" and "real_of_int n / real_of_int d / 2 powi e \<le> real_of_int m"
  shows "scaled_round n d e \<le> m"
proof -
  obtain x y where y: "0 < y" and r: "scaled_round n d e = round_half_even x y"
    and q: "real_of_int x / real_of_int y = real_of_int n / real_of_int d / 2 powi e"
    using scaled_fraction[OF assms(1)] .
  have "real_of_int x \<le> real_of_int (m * y)" using assms(2) y unfolding q[symmetric] by (simp add: divide_le_eq)
  then show ?thesis unfolding r using y by (intro round_half_even_le) (simp_all only: of_int_le_iff)
qed

lemma scaled_round_ge:
  assumes "0 < d" and "real_of_int m \<le> real_of_int n / real_of_int d / 2 powi e"
  shows "m \<le> scaled_round n d e"
proof -
  obtain x y where y: "0 < y" and r: "scaled_round n d e = round_half_even x y"
    and q: "real_of_int x / real_of_int y = real_of_int n / real_of_int d / 2 powi e"
    using scaled_fraction[OF assms(1)] .
  have "real_of_int (m * y) \<le> real_of_int x" using assms(2) y unfolding q[symmetric] by (simp add: le_divide_eq)
  then show ?thesis unfolding r using y by (intro round_half_even_ge) (simp_all only: of_int_le_iff)
qed

text \<open>The bits of a rounded fraction below \<open>2 ^ 1000\<close>.\<close>

lemma dbl_of_ratio_bits:
  assumes "0 < n" and "0 < d" and "real_of_int n / real_of_int d < 2 ^ 1000"
  defines "e \<equiv> max (- 1074) (ratio_log n d - 52)"
  defines "m \<equiv> scaled_round n d e"
  shows "dbl_of_ratio n d = word_of_int ((e + 1074) * 2 ^ 52 + m)"
    and "- 1074 \<le> e" and "e < 970" and "0 \<le> m" and "m \<le> 2 ^ 53" and "2 ^ 52 \<le> m \<or> e = - 1074"
proof -
  let ?q = "real_of_int n / real_of_int d"
  note log = ratio_log_bounds[OF assms(1,2)]
  have pos: "0 < ?q" using assms(1,2) by simp
  have "2 powi ratio_log n d < (2 :: real) powi 1000" using log(1) assms(3) by simp
  then have "ratio_log n d < 1000" by (rule powi_less_imp)
  then show e: "- 1074 \<le> e" "e < 970" by (simp_all add: e_def)
  have "2 powi (ratio_log n d + 1) \<le> (2 :: real) powi (53 + e)"
    by (rule power_int_increasing) (simp_all add: e_def)
  moreover have "(2 :: real) powi (53 + e) = real_of_int (2 ^ 53) * 2 powi e" by (simp add: power_int_add)
  ultimately have "?q \<le> real_of_int (2 ^ 53) * 2 powi e" using log(2) by linarith
  then have "?q / 2 powi e \<le> real_of_int (2 ^ 53)" by (subst pos_divide_le_eq) simp_all
  then show hi: "m \<le> 2 ^ 53" unfolding m_def by (rule scaled_round_le[OF assms(2)])
  have "real_of_int 0 \<le> ?q / 2 powi e" using assms(1,2) by (simp add: zero_le_divide_iff zero_le_mult_iff)
  then show lo: "0 \<le> m" unfolding m_def by (rule scaled_round_ge[OF assms(2)])
  show "2 ^ 52 \<le> m \<or> e = - 1074"
  proof (cases "e = - 1074")
    case False
    then have "ratio_log n d = 52 + e" by (simp add: e_def)
    then have "real_of_int (2 ^ 52) * 2 powi e \<le> ?q" using log(1) by (simp add: power_int_add del: le_divide_eq)
    then have "real_of_int (2 ^ 52) \<le> ?q / 2 powi e" by (subst pos_le_divide_eq) simp_all
    then have "2 ^ 52 \<le> m" unfolding m_def by (rule scaled_round_ge[OF assms(2)])
    then show ?thesis ..
  qed simp
  have "(e + 1074) * 2 ^ 52 + m < 2047 * 2 ^ 52" using e hi by simp
  then show "dbl_of_ratio n d = word_of_int ((e + 1074) * 2 ^ 52 + m)"
    using assms(1) unfolding dbl_of_ratio_def Let_def e_def[symmetric] scaled_round_def[symmetric] m_def[symmetric]
    by simp
qed

text \<open>Rounding does not pass an integer.\<close>

lemma rounded_below_integer:
  assumes "0 \<le> n" and "0 < d" and "n \<le> N * d" and "N < 2 ^ 52"
  shows "0 \<le> dbl_mag (dbl_sign neg (dbl_of_ratio n d)) \<and> dbl_mag (dbl_sign neg (dbl_of_ratio n d)) \<le> of_int N"
proof (cases "n = 0")
  case True
  have "dbl_mag (dbl_sign neg 0) = 0"
    using assembled(1)[of "-1074" 0 neg] by simp
  moreover have "0 \<le> N" using assms True by (simp add: zero_le_mult_iff)
  ultimately show ?thesis by (simp add: dbl_of_ratio_def True)
next
  case False
  with assms have n: "0 < n" by simp
  have q: "real_of_int n / real_of_int d \<le> of_int N"
    using assms(2,3) by (simp add: divide_le_eq) (metis of_int_le_iff of_int_mult)
  have N: "real_of_int N < 2 ^ 52" using assms(4) by (metis of_int_less_iff of_int_numeral of_int_power)
  then have "real_of_int N < 2 ^ 1000" using less_le_trans[OF N power_increasing[of 52 1000 "2 :: real"]] by simp
  with q have small: "real_of_int n / real_of_int d < 2 ^ 1000" by linarith
  define e where "e = max (- 1074) (ratio_log n d - 52)"
  note bits = dbl_of_ratio_bits[OF n assms(2) small, folded e_def]
  have "2 powi ratio_log n d < (2 :: real) powi 52"
    using ratio_log_bounds(1)[OF n assms(2)] q N by simp
  then have neg_e: "e < 0" using powi_less_imp[of "ratio_log n d" 52] by (simp add: e_def)
  have inv: "2 powi e = (1 :: real) / 2 ^ nat (- e)" using neg_e by (simp add: power_int_def power_one_over)
  have "scaled_round n d e \<le> N * 2 ^ nat (- e)"
  proof (rule scaled_round_le[OF assms(2)])
    have "real_of_int n / real_of_int d * 2 ^ nat (- e) \<le> real_of_int N * 2 ^ nat (- e)"
      using q by (rule mult_right_mono) simp
    then show "real_of_int n / real_of_int d / 2 powi e \<le> real_of_int (N * 2 ^ nat (- e))"
      unfolding inv by simp
  qed
  then have "real_of_int (scaled_round n d e) \<le> real_of_int (N * 2 ^ nat (- e))" by (simp only: of_int_le_iff)
  then have "of_int (scaled_round n d e) * 2 powi e \<le> real_of_int (N * 2 ^ nat (- e)) * 2 powi e"
    by (rule mult_right_mono) simp
  also have "\<dots> = real_of_int N" unfolding inv by simp
  finally have "of_int (scaled_round n d e) * 2 powi e \<le> real_of_int N" .
  then show ?thesis using assembled(1)[OF bits(2-6), of neg] bits(4) by (simp add: bits(1))
qed

end
