(* ===== verification/Fpconv_Words.thy ===== *)
theory Fpconv_Words
  imports Fpconv
begin

text \<open>
  The words of the conversion as natural numbers: sums, differences, products and shifts that do
  not wrap around, and the product of two 64-bit significands.
\<close>

named_theorems word_nat \<open>bitwise operations on 64-bit words as arithmetic on their values\<close>

lemma unat_and_ones [word_nat]: "unat (w AND 2 ^ n - 1) = unat w mod 2 ^ n" for w :: u64
  unfolding mask_eq_exp_minus_1[symmetric] take_bit_eq_mask[symmetric] unsigned_take_bit_eq
  by (rule take_bit_eq_mod)

lemma unat_shift_down [word_nat]: "unat (drop_bit n w) = unat w div 2 ^ n" for w :: u64
  unfolding unat_drop_bit_eq by (rule drop_bit_eq_div)

lemma unat_add_64: "unat a + unat b < 2 ^ 64 \<Longrightarrow> unat (a + b) = unat a + unat b" for a b :: u64
  by (simp add: unat_word_ariths)

lemma unat_mult_64: "unat a * unat b < 2 ^ 64 \<Longrightarrow> unat (a * b) = unat a * unat b" for a b :: u64
  by (simp add: unat_word_ariths)

lemma unat_sub_64: "b \<le> a \<Longrightarrow> unat (a - b) = unat a - unat b" for a b :: u64
  by (rule unat_sub)

lemma unat_shift_up: "unat w * 2 ^ n < 2 ^ 64 \<Longrightarrow> unat (push_bit n w) = unat w * 2 ^ n" for w :: u64
  unfolding unsigned_push_bit_eq unfolding push_bit_eq_mult take_bit_eq_mod by simp

lemma unat_less_64: "unat w < 2 ^ 64" for w :: u64
  using unsigned_less[of w] by simp

text \<open>The product of two numbers of two digits each in base \<open>M\<close>, without its two lowest digits.\<close>

lemma schoolbook:
  fixes ah al bh bl M H :: nat
  assumes "0 < M"
  shows "((ah * M + al) * (bh * M + bl) + H * M) div (M * M) =
    ah * bh + ah * bl div M + al * bh div M + (ah * bl mod M + al * bh mod M + al * bl div M + H) div M"
proof -
  have "(ah * M + al) * (bh * M + bl) + H * M = al * bl + (ah * bh * M + ah * bl + al * bh + H) * M"
    by (simp add: algebra_simps)
  then have "((ah * M + al) * (bh * M + bl) + H * M) div M = (ah * bh * M + ah * bl + al * bh + H) + al * bl div M"
    using assms by simp
  also have "\<dots> = (ah * bl mod M + al * bh mod M + al * bl div M + H) +
      (ah * bh + ah * bl div M + al * bh div M) * M"
    using div_mult_mod_eq[of "ah * bl" M] div_mult_mod_eq[of "al * bh" M]
    by (simp add: algebra_simps)
  finally show ?thesis unfolding div_mult2_eq using assms by (simp only: div_mult_self1 neq0_conv)
qed

lemma small_sum: "a < 2 ^ 32 \<Longrightarrow> b < 2 ^ 32 \<Longrightarrow> c < 2 ^ 32 \<Longrightarrow> a + b + c + 2 ^ 31 < (2 ^ 64 :: nat)"
  by simp

lemma unat_sum4:
  "unat a + unat b + unat c + unat d < 2 ^ 64 \<Longrightarrow> unat (a + b + c + d) = unat a + unat b + unat c + unat d"
  for a b c d :: u64
  by (subst unat_add_64; simp add: unat_add_64)+

lemma half_product: "x < 2 ^ 32 \<Longrightarrow> y < 2 ^ 32 \<Longrightarrow> x * y < 2 ^ 64" for x y :: nat
  using mult_strict_mono[of x "2 ^ 32" y "2 ^ 32"] by simp

lemma product_below:
  assumes "x < 2 ^ 64" and "y < 2 ^ 64"
  shows "(x * y + 2 ^ 63) div 2 ^ 64 < (2 ^ 64 :: nat)"
proof -
  have "x * y \<le> (2 ^ 64 - 1) * (2 ^ 64 - 1)" using assms by (intro mult_le_mono) simp_all
  then show ?thesis by (simp add: div_less_iff_less_mult)
qed

lemma multiply_value:
  "unat (fp_frac (multiply a b)) = (unat (fp_frac a) * unat (fp_frac b) + 2 ^ 63) div 2 ^ 64 \<and>
   fp_exp (multiply a b) = fp_exp a + fp_exp b + 64"
proof -
  let ?M = "2 ^ 32 :: nat" and ?x = "fp_frac a" and ?y = "fp_frac b"
  define ah al bh bl where "ah = unat ?x div ?M" and "al = unat ?x mod ?M"
    and "bh = unat ?y div ?M" and "bl = unat ?y mod ?M"
  note parts = ah_def al_def bh_def bl_def
  have lt: "ah < ?M" "al < ?M" "bh < ?M" "bl < ?M"
    using unat_less_64[of ?x] unat_less_64[of ?y] by (simp_all add: parts)
  have split: "unat ?x = ah * ?M + al" "unat ?y = bh * ?M + bl" by (simp_all add: parts)
  have mask32: "(0x00000000FFFFFFFF :: u64) = 2 ^ 32 - 1" by simp
  define A B C D where "A = drop_bit 32 ?x * (?y AND 2 ^ 32 - 1)" and "B = (?x AND 2 ^ 32 - 1) * drop_bit 32 ?y"
    and "C = (?x AND 2 ^ 32 - 1) * (?y AND 2 ^ 32 - 1)" and "D = drop_bit 32 ?x * drop_bit 32 ?y"
  note words = A_def B_def C_def D_def
  have prod: "unat A = ah * bl" "unat B = al * bh" "unat C = al * bl" "unat D = ah * bh"
    using lt half_product unfolding words by (subst unat_mult_64; simp only: word_nat flip: parts)+
  have "unat A mod ?M < ?M" "unat B mod ?M < ?M" "unat C div ?M < ?M"
    using unat_less_64[of C] by simp_all
  then have bound: "unat A mod ?M + unat B mod ?M + unat C div ?M + 2 ^ 31 < 2 ^ 64"
    by (rule small_sum)
  define T where "T = (A AND 2 ^ 32 - 1) + (B AND 2 ^ 32 - 1) + drop_bit 32 C + push_bit 31 1"
  have one: "unat (push_bit 31 1 :: u64) = 2 ^ 31" by simp
  have T: "unat T = unat A mod ?M + unat B mod ?M + unat C div ?M + 2 ^ 31"
    unfolding T_def using bound by (subst unat_sum4) (simp_all only: word_nat one)
  define R where "R = D + drop_bit 32 A + drop_bit 32 B + drop_bit 32 T"
  have sum: "unat D + unat A div ?M + unat B div ?M + unat T div ?M = (unat ?x * unat ?y + 2 ^ 63) div 2 ^ 64"
    using schoolbook[of ?M ah al bh bl "2 ^ 31"] unfolding T prod split by simp
  then have "unat R = (unat ?x * unat ?y + 2 ^ 63) div 2 ^ 64"
    unfolding R_def using product_below[OF unat_less_64[of ?x] unat_less_64[of ?y]]
    by (subst unat_sum4) (simp_all only: word_nat)
  moreover have "multiply a b = \<lparr> fp_frac = R, fp_exp = fp_exp a + fp_exp b + 64 \<rparr>"
    by (simp only: multiply_def Let_def R_def T_def words mask32)
  ultimately show ?thesis by simp
qed
end
