(* ===== verification/Fpconv_Cached.thy ===== *)
theory Fpconv_Cached
  imports Double_Round Fpconv_Words
begin

text \<open>
  The search for the cached power of ten: the guess, computed with a product of doubles, stays
  inside of the table, and from any guess the search ends at an entry that brings the exponent
  into the window from \<open>-60\<close> to \<open>-32\<close>.
\<close>

section \<open>The cached power of ten\<close>

lemma one_log_ten_bits: "dbl_significand one_log_ten = 0x134413509F79FE \<and> dbl_scale one_log_ten = - 54"
  by code_simp

lemma approx_bounded:
  assumes "\<bar>n\<bar> \<le> 1050"
  shows "\<bar>dbl_trunc (int_times_dbl n one_log_ten)\<bar> \<le> 317"
proof -
  define r where "r = dbl_of_ratio (\<bar>n\<bar> * 0x134413509F79FE) (2 ^ 54)"
  have eq: "int_times_dbl n one_log_ten = dbl_sign (n < 0) r"
    by (simp add: int_times_dbl_def one_log_ten_bits r_def)
  have "\<bar>n\<bar> * 0x134413509F79FE \<le> 1050 * 0x134413509F79FE" using assms by (intro mult_right_mono) simp_all
  also have "\<dots> \<le> 317 * 2 ^ 54" by simp
  finally have "0 \<le> dbl_mag (dbl_sign (n < 0) r) \<and> dbl_mag (dbl_sign (n < 0) r) \<le> of_int 317"
    unfolding r_def by (intro rounded_below_integer) simp_all
  then have "0 \<le> \<lfloor>dbl_mag (dbl_sign (n < 0) r)\<rfloor>" "\<lfloor>dbl_mag (dbl_sign (n < 0) r)\<rfloor> \<le> 317"
    by (simp_all add: floor_le_iff)
  then show ?thesis unfolding eq dbl_trunc_floor by simp
qed

definition cached_exp :: "int \<Rightarrow> int" where
  "cached_exp i = snd (powers_ten ! nat i)"

lemma powers_ten_facts:
  "length powers_ten = 87" "cached_exp 0 = - 1220" "cached_exp 86 = 1066"
  "list_all (\<lambda>(a, b). a < b \<and> b \<le> a + 27) (zip (map snd powers_ten) (tl (map snd powers_ten)))"
  "list_all (\<lambda>p. 2 ^ 63 \<le> unat (fst p)) powers_ten"
  by (simp_all add: powers_ten_def cached_exp_def)

lemma cached_exp_step:
  assumes "0 \<le> i" and "i < 86"
  shows "cached_exp i < cached_exp (i + 1) \<and> cached_exp (i + 1) \<le> cached_exp i + 27"
proof -
  have len: "length powers_ten = 87" by (rule powers_ten_facts)
  have i: "nat i < 86" "nat (i + 1) = Suc (nat i)" using assms by simp_all
  have "(cached_exp i, cached_exp (i + 1)) = zip (map snd powers_ten) (tl (map snd powers_ten)) ! nat i"
    using i len by (simp add: cached_exp_def nth_tl)
  moreover have "zip (map snd powers_ten) (tl (map snd powers_ten)) ! nat i
      \<in> set (zip (map snd powers_ten) (tl (map snd powers_ten)))"
    using i len by (intro nth_mem) simp
  ultimately have "(cached_exp i, cached_exp (i + 1)) \<in> set (zip (map snd powers_ten) (tl (map snd powers_ten)))"
    by simp
  with powers_ten_facts(4) show ?thesis unfolding list_all_iff by blast
qed

text \<open>What the search promises: an entry of the table whose exponent lands in the window.\<close>

definition in_window :: "int \<Rightarrow> Fp \<Rightarrow> int \<Rightarrow> bool" where
  "in_window e cp k \<longleftrightarrow> 2 ^ 63 \<le> unat (fp_frac cp) \<and> - 60 \<le> e + fp_exp cp + 64 \<and> e + fp_exp cp + 64 \<le> - 32 \<and>
     (\<exists>i. 0 \<le> i \<and> i < 87 \<and> (fp_frac cp, fp_exp cp) = powers_ten ! nat i \<and> k = - 348 + i * 8)"

lemma search_hit:
  assumes "0 \<le> i" and "i < 87" and "- 60 \<le> e + cached_exp i + 64" and "e + cached_exp i + 64 \<le> - 32"
  shows "\<exists>cp k. find_pow10_loop (Suc f) e i = Some (cp, k) \<and> in_window e cp k"
proof -
  let ?p = "powers_ten ! nat i"
  have "?p \<in> set powers_ten" using assms(1,2) powers_ten_facts(1) by (intro nth_mem) simp
  then have "2 ^ 63 \<le> unat (fst ?p)" using powers_ten_facts(5) unfolding list_all_iff by blast
  then have "in_window e \<lparr> fp_frac = fst ?p, fp_exp = snd ?p \<rparr> (- 348 + i * 8)"
    using assms by (auto simp: in_window_def cached_exp_def)
  moreover have "find_pow10_loop (Suc f) e i = Some (\<lparr> fp_frac = fst ?p, fp_exp = snd ?p \<rparr>, - 348 + i * 8)"
    using assms powers_ten_facts(1) by (simp add: cached_exp_def Let_def)
  ultimately show ?thesis by blast
qed

lemma search_up:
  assumes "0 \<le> i" and "i < 87" and "e + cached_exp i + 64 \<le> - 32" and "- 1190 \<le> e" and "86 - i < int f"
  shows "\<exists>cp k. find_pow10_loop f e i = Some (cp, k) \<and> in_window e cp k"
  using assms
proof (induction f arbitrary: i)
  case (Suc f)
  show ?case
  proof (cases "- 60 \<le> e + cached_exp i + 64")
    case False
    then have "i \<noteq> 86" using Suc.prems powers_ten_facts(3) by auto
    with Suc.prems have i: "i < 86" by simp
    note step = cached_exp_step[OF Suc.prems(1) i]
    have "\<exists>cp k. find_pow10_loop f e (i + 1) = Some (cp, k) \<and> in_window e cp k"
      using Suc.prems i step False by (intro Suc.IH) simp_all
    moreover have "find_pow10_loop (Suc f) e i = find_pow10_loop f e (i + 1)"
      using False Suc.prems powers_ten_facts(1) by (simp add: cached_exp_def Let_def)
    ultimately show ?thesis by simp
  qed (use Suc.prems search_hit in blast)
qed simp

lemma search_down:
  assumes "0 \<le> i" and "i < 87" and "- 60 \<le> e + cached_exp i + 64" and "e \<le> 1124" and "i < int f"
  shows "\<exists>cp k. find_pow10_loop f e i = Some (cp, k) \<and> in_window e cp k"
  using assms
proof (induction f arbitrary: i)
  case (Suc f)
  show ?case
  proof (cases "e + cached_exp i + 64 \<le> - 32")
    case False
    then have "i \<noteq> 0" using Suc.prems powers_ten_facts(2) by auto
    with Suc.prems have i: "0 \<le> i - 1" "i - 1 < 86" by simp_all
    have step: "cached_exp i \<le> cached_exp (i - 1) + 27" using cached_exp_step[OF i] by simp
    have "\<exists>cp k. find_pow10_loop f e (i - 1) = Some (cp, k) \<and> in_window e cp k"
      using Suc.prems i step False by (intro Suc.IH) simp_all
    moreover have "find_pow10_loop (Suc f) e i = find_pow10_loop f e (i - 1)"
      using False Suc.prems powers_ten_facts(1) by (simp add: cached_exp_def Let_def)
    ultimately show ?thesis by simp
  qed (use Suc.prems search_hit in blast)
qed simp

lemma cachedpow10_found:
  assumes "- 1137 \<le> e" and "e \<le> 960"
  shows "\<exists>cp k. find_cachedpow10 e = Some (cp, k) \<and> in_window e cp k"
proof -
  define a where "a = dbl_trunc (int_times_dbl (- (e + 87)) one_log_ten)"
  have "\<bar>- (e + 87)\<bar> \<le> 1050" using assms by simp
  then have a: "\<bar>a\<bar> \<le> 317" unfolding a_def by (rule approx_bounded)
  then have "(a - (- 348)) sdiv 8 = (a + 348) div 8"
    by (simp add: signed_divide_int_def sgn_if)
  moreover have "0 \<le> (a + 348) div 8" "(a + 348) div 8 < 87" using a by simp_all
  ultimately obtain i where i: "find_cachedpow10 e = find_pow10_loop 87 e i" "0 \<le> i" "i < 87"
    unfolding find_cachedpow10_def Let_def a_def[symmetric] by auto
  show ?thesis
  proof (cases "e + cached_exp i + 64 \<le> - 32")
    case True
    with assms i show ?thesis unfolding i(1) by (intro search_up) simp_all
  next
    case False
    with assms i show ?thesis unfolding i(1) by (intro search_down) simp_all
  qed
qed

end
