(* ===== verification/Fpconv_Bounds.thy ===== *)
theory Fpconv_Bounds
  imports Fpconv_Cached
begin

text \<open>
  The bounds of the conversion to digits: normalising ends, the boundaries of a number are well
  apart before and after the product with the power of ten, the digits fit the array of 18
  characters, and each of them is a decimal digit.
\<close>

section \<open>Shifting until a bit is set\<close>

lemma top_bit_clear:
  fixes w :: u64
  assumes "unat w < 2 ^ (t + 1)"
  shows "w AND 2 ^ t = 0 \<longleftrightarrow> unat w < 2 ^ t"
proof -
  have "bit (unat w) t \<longleftrightarrow> bit w t" by (simp add: bit_unsigned_iff)
  then have "bit w t \<longleftrightarrow> odd (unat w div 2 ^ t)" unfolding bit_iff_odd[of "unat w"] by simp
  moreover have "unat w div 2 ^ t < 2" using assms by (simp add: less_mult_imp_div_less)
  ultimately show ?thesis
    by (auto simp: and_exp_eq_0_iff_not_bit div_eq_0_iff less_2_cases_iff)
qed

lemma shift_until_ends:
  assumes "0 < unat (fp_frac x)" and "unat (fp_frac x) < 2 ^ (t + 1)" and "t < 63"
  shows "\<exists>j y. shift_until (2 ^ t) x = Some y \<and> unat (fp_frac y) = unat (fp_frac x) * 2 ^ j \<and>
    fp_exp y = fp_exp x - int j \<and> 2 ^ t \<le> unat (fp_frac y) \<and> unat (fp_frac y) < 2 ^ (t + 1) \<and>
    (2 ^ t \<le> unat (fp_frac x) \<longrightarrow> j = 0)"
  using assms
proof (induction "2 ^ (t + 1) - unat (fp_frac x)" arbitrary: x rule: less_induct)
  case less
  show ?case
  proof (cases "unat (fp_frac x) < 2 ^ t")
    case False
    then have "shift_until (2 ^ t) x = Some x"
      using top_bit_clear[OF less.prems(2)] by (simp add: shift_until.simps)
    with False less.prems show ?thesis by (intro exI[of _ 0] exI[of _ x]) simp
  next
    case True
    define x1 where "x1 = \<lparr> fp_frac = push_bit 1 (fp_frac x), fp_exp = fp_exp x - 1 \<rparr>"
    have "unat (fp_frac x) * 2 ^ 1 < 2 ^ (t + 1)" using True by simp
    also have "(2 :: nat) ^ (t + 1) \<le> 2 ^ 64" using less.prems(3) by (intro power_increasing) simp_all
    finally have f1: "unat (fp_frac x1) = unat (fp_frac x) * 2"
      unfolding x1_def by (simp only: Fp.select_convs unat_shift_up power_one_right)
    have step: "shift_until (2 ^ t) x = shift_until (2 ^ t) x1"
      using True top_bit_clear[OF less.prems(2)] by (subst shift_until.simps) (simp add: x1_def)
    have "2 ^ (t + 1) - unat (fp_frac x1) < 2 ^ (t + 1) - unat (fp_frac x)" "0 < unat (fp_frac x1)"
      "unat (fp_frac x1) < 2 ^ (t + 1)"
      using True less.prems(1) by (simp_all add: f1)
    from less.hyps[OF this less.prems(3)] obtain j y where y: "shift_until (2 ^ t) x1 = Some y"
        "unat (fp_frac y) = unat (fp_frac x1) * 2 ^ j"
        "fp_exp y = fp_exp x1 - int j" "2 ^ t \<le> unat (fp_frac y)" "unat (fp_frac y) < 2 ^ (t + 1)"
      by blast
    have "shift_until (2 ^ t) x = Some y \<and> unat (fp_frac y) = unat (fp_frac x) * 2 ^ Suc j \<and>
        fp_exp y = fp_exp x - int (Suc j) \<and> 2 ^ t \<le> unat (fp_frac y) \<and> unat (fp_frac y) < 2 ^ (t + 1) \<and>
        (2 ^ t \<le> unat (fp_frac x) \<longrightarrow> Suc j = 0)"
      using y True unfolding step f1 by (simp add: x1_def)
    then show ?thesis by blast
  qed
qed

section \<open>The number and its boundaries\<close>

lemma normalize_total:
  assumes "0 < unat (fp_frac x)" and "unat (fp_frac x) < 2 ^ 53"
  shows "\<exists>y. normalize x = Some y"
  using shift_until_ends[of x 52] assms by (auto simp: normalize_def hiddenbit_def)

text \<open>
  The boundaries share an exponent; the upper one has its highest bit set and the lower one is
  at least 1536 units below.
\<close>

definition boundaries :: "Fp \<Rightarrow> Fp \<Rightarrow> Fp \<Rightarrow> bool" where
  "boundaries w lo up \<longleftrightarrow> fp_exp lo = fp_exp up \<and> fp_exp w - 63 \<le> fp_exp up \<and> fp_exp up \<le> fp_exp w - 11 \<and>
     2 ^ 63 \<le> unat (fp_frac up) \<and> unat (fp_frac lo) + 1536 \<le> unat (fp_frac up)"

lemma boundaries_total:
  assumes "0 < unat (fp_frac w)" and "unat (fp_frac w) < 2 ^ 53"
  shows "\<exists>lo up. get_normalized_boundaries w = Some (lo, up) \<and> boundaries w lo up"
proof -
  let ?f = "unat (fp_frac w)"
  define u0 where "u0 = \<lparr> fp_frac = push_bit 1 (fp_frac w) + 1, fp_exp = fp_exp w - 1 \<rparr>"
  have two: "unat (push_bit 1 (fp_frac w)) = ?f * 2" using assms(2) by (subst unat_shift_up) simp_all
  have u0: "unat (fp_frac u0) = ?f * 2 + 1"
    using assms(2) two unfolding u0_def by (subst Fp.select_convs, subst unat_add_64) simp_all
  obtain j u where u: "shift_until (2 ^ 53) u0 = Some u" "unat (fp_frac u) = (?f * 2 + 1) * 2 ^ j"
      "fp_exp u = fp_exp w - 1 - int j" "2 ^ 53 \<le> unat (fp_frac u)" "unat (fp_frac u) < 2 ^ 54"
      "2 ^ 53 \<le> ?f * 2 + 1 \<longrightarrow> j = 0"
    using shift_until_ends[of u0 53] assms u0 by (auto simp: u0_def)
  define up where "up = shift_left u 10"
  have "unat (push_bit 10 (fp_frac u)) = unat (fp_frac u) * 2 ^ 10" using u(5) by (intro unat_shift_up) simp
  then have up: "unat (fp_frac up) = (?f * 2 + 1) * 2 ^ j * 2 ^ 10" "fp_exp up = fp_exp w - 11 - int j"
    unfolding up_def shift_left_def u(2) using u(3) by simp_all
  have "3 * 2 ^ j \<le> (?f * 2 + 1) * 2 ^ j" using assms(1) by (intro mult_le_mono1) simp
  also have "\<dots> < 2 ^ 54" using u(2,5) by simp
  finally have "2 ^ j < (2 :: nat) ^ 53" by simp
  then have j: "j \<le> 52" by (simp only: power_strict_increasing_iff)
  define ls :: nat where "ls = (if fp_frac w = hiddenbit then 2 else 1)"
  define lo0 where "lo0 = push_bit ls (fp_frac w) - 1"
  define k where "k = nat (11 + int j - int ls)"
  have ls: "ls = 1 \<or> ls = 2" by (simp add: ls_def)
  have k: "int k = 11 + int j - int ls" "ls + k = 11 + j" "9 \<le> k" "k < 64" using ls j by (auto simp: k_def)
  have "unat (push_bit ls (fp_frac w)) = ?f * 2 ^ ls" using ls assms(2) by (subst unat_shift_up) auto
  then have lo0: "unat lo0 = ?f * 2 ^ ls - 1"
    unfolding lo0_def using assms(1) by (subst unat_sub_64) (simp_all add: word_le_nat_alt)
  have chain: "?f * 2 ^ ls * 2 ^ k = ?f * 2 ^ (11 + j)" by (simp add: k(2) flip: power_add mult.assoc)
  have prod: "unat lo0 * 2 ^ k = ?f * 2 ^ (11 + j) - 2 ^ k" by (simp only: lo0 diff_mult_distrib mult_1 chain)
  have upf: "unat (fp_frac up) = ?f * 2 ^ (11 + j) + 2 ^ (10 + j)" by (simp add: up(1) power_add algebra_simps)
  then have "unat lo0 * 2 ^ k < 2 ^ 64" using prod unat_less_64[of "fp_frac up"] by linarith
  note lo1 = unat_shift_up[OF this]
  define lo where "lo = \<lparr> fp_frac = push_bit k lo0, fp_exp = fp_exp up \<rparr>"
  have hidden: "push_bit 1 hiddenbit = 2 ^ 53" by (simp add: hiddenbit_def)
  have shift: "fp_exp w - int ls - fp_exp up = int k" by (simp add: up(2) k(1))
  have "get_normalized_boundaries w = Some (lo, up)"
    unfolding get_normalized_boundaries_def hidden u0_def[symmetric] u(1) option.case Let_def
      ls_def[symmetric] Fp.select_convs diff_numeral_simps
    using k(4) shift by (simp add: up_def lo_def lo0_def)
  moreover have "boundaries w lo up"
  proof -
    have pow: "(512 :: nat) \<le> 2 ^ k" "(1024 :: nat) \<le> 2 ^ (10 + j)"
      using power_increasing[OF k(3), of "2 :: nat"] power_increasing[of 10 "10 + j" "2 :: nat"] by simp_all
    have "1 * 2 ^ k \<le> ?f * 2 ^ ls * 2 ^ k" using assms(1) by (intro mult_le_mono1) simp
    then have "2 ^ k \<le> ?f * 2 ^ (11 + j)" unfolding chain by simp
    then have "unat (fp_frac lo) + 1536 \<le> unat (fp_frac up)"
      unfolding lo_def Fp.select_convs lo1 prod upf using pow by linarith
    moreover have "2 ^ 53 * 2 ^ 10 \<le> unat (fp_frac up)" using u(4) unfolding up(1) u(2) by (rule mult_le_mono1)
    ultimately show ?thesis using j by (simp add: boundaries_def lo_def up(2))
  qed
  ultimately show ?thesis by blast
qed

end
