(* ===== verification/Fpconv_Digits.thy ===== *)
theory Fpconv_Digits
  imports Fpconv_Bounds
begin

text \<open>
  The conversion is total: for every double the digits are generated inside of the array of 18
  characters, rounding ends and leaves decimal digits, and the text has at most 26 characters.
\<close>

section \<open>After the product\<close>

definition digit_input :: "Fp \<Rightarrow> Fp \<Rightarrow> bool" where
  "digit_input up lo \<longleftrightarrow> - 60 \<le> fp_exp up \<and> fp_exp up \<le> - 32 \<and> 1 \<le> unat (fp_frac lo) \<and>
     unat (fp_frac lo) + 766 \<le> unat (fp_frac up) \<and> 2 ^ 62 - 1 \<le> unat (fp_frac up)"

lemma scaled_apart:
  fixes u l c :: nat
  assumes "l + 1536 \<le> u" and "2 ^ 63 \<le> c"
  shows "(l * c + 2 ^ 63) div 2 ^ 64 + 768 \<le> (u * c + 2 ^ 63) div 2 ^ 64"
proof -
  have "l * c + 1536 * 2 ^ 63 \<le> l * c + 1536 * c" using assms(2) by simp
  also have "\<dots> \<le> u * c" using mult_le_mono1[OF assms(1), of c] by (simp add: algebra_simps)
  finally have "(l * c + 2 ^ 63 + 768 * 2 ^ 64) div 2 ^ 64 \<le> (u * c + 2 ^ 63) div 2 ^ 64"
    by (intro div_le_mono) simp
  then show ?thesis by simp
qed

lemma scaled_boundaries:
  assumes "boundaries w lo up" and "in_window (fp_exp up) cp k"
  defines "up1 \<equiv> multiply up cp" and "lo1 \<equiv> multiply lo cp"
  shows "digit_input (up1\<lparr> fp_frac := fp_frac up1 - 1 \<rparr>) (lo1\<lparr> fp_frac := fp_frac lo1 + 1 \<rparr>)"
proof -
  let ?u = "unat (fp_frac up)" and ?l = "unat (fp_frac lo)" and ?c = "unat (fp_frac cp)"
  have b: "2 ^ 63 \<le> ?u" "?l + 1536 \<le> ?u" "2 ^ 63 \<le> ?c" "- 60 \<le> fp_exp up + fp_exp cp + 64"
      "fp_exp up + fp_exp cp + 64 \<le> - 32"
    using assms(1,2) by (simp_all add: boundaries_def in_window_def)
  have val: "unat (fp_frac up1) = (?u * ?c + 2 ^ 63) div 2 ^ 64" "unat (fp_frac lo1) = (?l * ?c + 2 ^ 63) div 2 ^ 64"
      "fp_exp up1 = fp_exp up + fp_exp cp + 64"
    unfolding up1_def lo1_def using multiply_value by blast+
  have apart: "unat (fp_frac lo1) + 768 \<le> unat (fp_frac up1)" unfolding val by (rule scaled_apart[OF b(2,3)])
  have "2 ^ 63 * 2 ^ 63 \<le> ?u * ?c" using b by (intro mult_le_mono)
  then have "(2 ^ 63 * 2 ^ 63) div 2 ^ 64 \<le> unat (fp_frac up1)" unfolding val by (intro div_le_mono) linarith
  then have big: "2 ^ 62 \<le> unat (fp_frac up1)" by simp
  have "unat (fp_frac up1 - 1) = unat (fp_frac up1) - 1"
    using big by (subst unat_sub_64) (simp_all add: word_le_nat_alt)
  moreover have "unat (fp_frac lo1 + 1) = unat (fp_frac lo1) + 1"
    using apart unat_less_64[of "fp_frac up1"] by (subst unat_add_64) simp_all
  ultimately show ?thesis using apart big b(4,5) unfolding digit_input_def by (simp add: val(3)) linarith
qed

section \<open>Single digits\<close>

lemma ucast_small: "unat q < 10 \<Longrightarrow> unat (ucast q :: 32 word) = unat q" for q :: u64
  by (simp add: unsigned_ucast_eq take_bit_nat_eq_self)

lemma put_digit_small:
  assumes "unat q < 10"
  shows "put_digit ds q =
    (if q = 0 \<and> ds = [] then Some ds
     else if length ds \<ge> 18 then None else Some (ds @ [digit_char (unat q)]))"
proof -
  have "(ucast q :: 32 word) = 0 \<longleftrightarrow> q = 0"
    using ucast_small[OF assms] by (metis unat_eq_zero)
  then show ?thesis
    using assms by (simp add: put_digit_def Let_def ucast_small digit_char_def add.commute)
qed

definition digits :: "string \<Rightarrow> bool" where
  "digits ds \<longleftrightarrow> ds \<noteq> [] \<and> length ds \<le> 18 \<and> (\<forall>c \<in> set ds. is_digit c)"

text \<open>Rounding lowers the last digit, by no more than the gap allows.\<close>

lemma round_digit_ends:
  assumes "ds \<noteq> []" and "rem \<le> delta" and "0 < unat kappa"
  shows "\<exists>n ds'. round_digit ds delta rem kappa fr = Some ds' \<and> unat rem + n * unat kappa \<le> unat delta \<and>
    butlast ds' = butlast ds \<and> ds' \<noteq> [] \<and>
    (of_char (last ds') :: nat) = ((of_char (last ds) :: nat) + 255 * n) mod 256"
  using assms
proof (induction "unat delta - unat rem" arbitrary: ds rem rule: less_induct)
  case less
  show ?case
  proof (cases "rem < fr \<and> delta - rem \<ge> kappa \<and> (rem + kappa < fr \<or> fr - rem > rem + kappa - fr)")
    case False
    then have "round_digit ds delta rem kappa fr = Some ds" by (subst round_digit.simps) auto
    moreover have "(of_char (last ds) :: nat) < 256" by simp
    ultimately show ?thesis using less.prems by (intro exI[of _ 0] exI[of _ ds]) (simp add: word_le_nat_alt)
  next
    case True
    have gap: "unat kappa \<le> unat delta - unat rem"
      using True less.prems(2) by (simp add: word_le_nat_alt unat_sub_64)
    have le: "unat rem \<le> unat delta" using less.prems(2) by (simp add: word_le_nat_alt)
    have sum: "unat (rem + kappa) = unat rem + unat kappa"
      using gap le unat_less_64[of delta] by (intro unat_add_64) linarith
    have prems: "unat delta - unat (rem + kappa) < unat delta - unat rem" "dec_last ds \<noteq> []" "rem + kappa \<le> delta"
      using gap le less.prems(3) by (simp_all add: sum dec_last_def word_le_nat_alt)
    from less.hyps[OF this less.prems(3)] obtain n ds' where IH:
        "round_digit (dec_last ds) delta (rem + kappa) kappa fr = Some ds'"
        "unat (rem + kappa) + n * unat kappa \<le> unat delta" "butlast ds' = butlast (dec_last ds)" "ds' \<noteq> []"
        "(of_char (last ds') :: nat) = ((of_char (last (dec_last ds)) :: nat) + 255 * n) mod 256"
      by blast
    have "round_digit ds delta rem kappa fr = Some ds'"
      using True less.prems(1) IH(1) by (subst round_digit.simps) simp
    moreover have "(of_char (last ds') :: nat) = ((of_char (last ds) :: nat) + 255 * Suc n) mod 256"
      unfolding IH(5) by (simp add: dec_last_def of_char_of mod_simps add.commute add.left_commute)
    ultimately show ?thesis
      using IH(2-4) sum by (intro exI[of _ "Suc n"] exI[of _ ds']) (simp add: dec_last_def)
  qed
qed

lemma round_digit_digits:
  assumes "digits (ds @ [digit_char d])" and "d < 10" and "rem \<le> delta" and "0 < unat kappa"
    and "unat delta \<le> d * unat kappa + unat rem"
  shows "\<exists>ds'. round_digit (ds @ [digit_char d]) delta rem kappa fr = Some ds' \<and> digits ds'"
proof -
  from round_digit_ends[OF _ assms(3,4), of "ds @ [digit_char d]" fr] obtain n ds' where
    r: "round_digit (ds @ [digit_char d]) delta rem kappa fr = Some ds'" "unat rem + n * unat kappa \<le> unat delta"
      "butlast ds' = ds" "ds' \<noteq> []" "(of_char (last ds') :: nat) = (48 + d + 255 * n) mod 256"
    using assms(2) by auto
  have "n * unat kappa \<le> d * unat kappa" using r(2) assms(5) by linarith
  then have n: "n \<le> d" using assms(4) by simp
  then have eq: "48 + d + 255 * n = (48 + (d - n)) + 256 * n" by simp
  have "(of_char (last ds') :: nat) = 48 + (d - n)" unfolding r(5) eq mod_mult_self2 using assms(2) by simp
  then have "is_digit (last ds')" using assms(2) by (simp add: is_digit_def)
  moreover obtain c where c: "ds' = ds @ [c]" using append_butlast_last_id[OF r(4)] r(3) by metis
  ultimately have "digits ds'" using assms(1) by (simp add: digits_def)
  with r(1) show ?thesis by blast
qed

section \<open>The digits behind the point\<close>

lemma powers_of_ten_bound: "10 ^ k * 766 < (2 :: nat) ^ 64 \<Longrightarrow> k \<le> 16"
proof (rule ccontr)
  assume a: "10 ^ k * 766 < (2 :: nat) ^ 64" and "\<not> k \<le> 16"
  then have "(10 :: nat) ^ 17 \<le> 10 ^ k" by (intro power_increasing) simp_all
  with a show False by simp
qed

lemma fraction_digits_total:
  assumes "32 \<le> s" and "s \<le> 60" and "unat part2 < 2 ^ s" and "unat delta \<le> unat part2"
    and "766 * 10 ^ j \<le> unat delta" and "length units + j = 19" and "digits ds" and "length ds = Suc l + j"
    and "10 ^ l * 2 ^ s < (2 :: nat) ^ 64"
  shows "\<exists>ds' K'. fraction_digits units K wfrac part2 delta s ds kappa = Some (ds', K') \<and> digits ds'"
  using assms
proof (induction units arbitrary: part2 delta j ds kappa)
  case Nil
  have "766 * 10 ^ 19 \<le> (2 :: nat) ^ s" using Nil by simp
  also have "\<dots> \<le> 2 ^ 60" using Nil(2) by (intro power_increasing) simp_all
  finally show ?case by simp
next
  case (Cons unit units)
  note s = Cons.prems(1,2)
  have "(2 :: nat) ^ s \<le> 2 ^ 60" using s(2) by (intro power_increasing) simp_all
  then have lt: "unat part2 < 2 ^ 60" "unat delta < 2 ^ 60" using Cons.prems(3,4) by linarith+
  have one: "unat (push_bit s 1 :: u64) = 2 ^ s"
    using s(2) power_strict_increasing[of s 64 "2 :: nat"] by (subst unat_shift_up) simp_all
  then have one': "push_bit s 1 = (2 ^ s :: u64)" by (simp add: push_bit_eq_mult)
  define p d1 where "p = part2 * 10" and "d1 = delta * 10"
  have p: "unat p = unat part2 * 10" unfolding p_def using lt by (subst unat_mult_64) simp_all
  have d1: "unat d1 = unat delta * 10" unfolding d1_def using lt by (subst unat_mult_64) simp_all
  define q p1 where "q = drop_bit s p" and "p1 = p AND (push_bit s 1 - 1)"
  have q: "unat q = unat p div 2 ^ s" unfolding q_def by (rule unat_shift_down)
  have p1: "unat p1 = unat p mod 2 ^ s" unfolding p1_def one' by (rule unat_and_ones)
  have q10: "unat q < 10" unfolding q p using Cons.prems(3) by (intro less_mult_imp_div_less) simp
  have pq: "unat p = unat q * 2 ^ s + unat p1" unfolding q p1 by (rule div_mult_mod_eq[symmetric])
  have "10 ^ (l + j) * 766 = 10 ^ l * (766 * 10 ^ j :: nat)" by (simp add: power_add)
  also have "\<dots> \<le> 10 ^ l * 2 ^ s" using Cons.prems(3-5) by (intro mult_le_mono) linarith+
  also note Cons.prems(9)
  finally have len: "length ds \<le> 17" using powers_of_ten_bound Cons.prems(8) by fastforce
  have ne: "ds \<noteq> []" using Cons.prems(7) by (simp add: digits_def)
  have put: "put_digit ds q = Some (ds @ [digit_char (unat q)])"
    using len ne by (simp add: put_digit_small[OF q10])
  have dig: "digits (ds @ [digit_char (unat q)])" using Cons.prems(7) len q10 by (simp add: digits_def)
  have eq: "fraction_digits (unit # units) K wfrac part2 delta s ds kappa =
      (if p1 < d1
       then map_option (\<lambda>x. (x, K + (kappa - 1))) (round_digit (ds @ [digit_char (unat q)]) d1 p1 (push_bit s 1) (wfrac * unit))
       else fraction_digits units K wfrac p1 d1 s (ds @ [digit_char (unat q)]) (kappa - 1))"
    unfolding fraction_digits.simps Let_def p_def[symmetric] d1_def[symmetric] q_def[symmetric]
      p1_def[symmetric] put option.case ..
  show ?case
  proof (cases "p1 < d1")
    case True
    have "unat d1 \<le> unat q * unat (push_bit s 1 :: u64) + unat p1"
      using Cons.prems(4) unfolding one d1 pq[symmetric] p by simp
    from round_digit_digits[OF dig q10 less_imp_le[OF True] _ this, of "wfrac * unit"] obtain ds' where
      "round_digit (ds @ [digit_char (unat q)]) d1 p1 (push_bit s 1) (wfrac * unit) = Some ds'" "digits ds'"
      unfolding one by auto
    then show ?thesis unfolding eq using True by simp
  next
    case False
    have ge: "unat d1 \<le> unat p1" using False by (simp add: word_le_nat_alt word_less_nat_alt)
    have "\<exists>ds' K'. fraction_digits units K wfrac p1 d1 s (ds @ [digit_char (unat q)]) (kappa - 1) = Some (ds', K') \<and> digits ds'"
      using s ge Cons.prems dig by (intro Cons.IH[where j = "Suc j"]) (simp_all add: p1 d1)
    then show ?thesis unfolding eq using False by simp
  qed
qed

section \<open>The digits before the point\<close>

text \<open>The divisors of the first loop when \<open>i\<close> digits are left.\<close>

definition divisors :: "nat \<Rightarrow> u64 list" where
  "divisors i = map (\<lambda>m. 10 ^ m) (rev [0..<i])"

lemma divisors_Suc: "divisors (Suc i) = 10 ^ i # divisors i"
  by (simp add: divisors_def)

lemma tens_divisors: "drop 10 tens = divisors 10"
  by (simp add: tens_def divisors_def upt_rec)

lemma unat_power_ten: "m \<le> 19 \<Longrightarrow> unat (10 ^ m :: u64) = 10 ^ m"
proof (induction m)
  case (Suc m)
  then have "unat (10 ^ m :: u64) = 10 ^ m" by simp
  moreover have "(10 :: nat) ^ m \<le> 10 ^ 18" using Suc.prems by (intro power_increasing) simp_all
  ultimately show ?case by (simp, subst unat_mult_64) simp_all
qed simp

text \<open>
  \<open>P\<close> is the part before the point that the loop started with. Either no digit is written and
  the part is still whole, or the digits written and to come are no more than \<open>P\<close> has.
\<close>

lemma integer_digits_total:
  assumes "32 \<le> s" and "s \<le> 60" and "i \<le> 10" and "unat part1 < 10 ^ i" and "unat part2 < 2 ^ s"
    and "P * 2 ^ s + unat part2 < 2 ^ 64" and "1 \<le> P" and "P < 10 ^ 10" and "unat part1 \<le> P"
    and "ds = [] \<and> unat part1 = P \<or> digits ds \<and> 10 ^ (length ds + i - 1) \<le> P"
    and "766 \<le> unat delta" and "unat delta < unat part1 * 2 ^ s + unat part2"
    and "unat delta < P * 2 ^ s + unat part2"
  shows "\<exists>ds' K'. integer_digits (divisors i) K wfrac part1 part2 delta s ds kappa = Some (ds', K') \<and> digits ds'"
  using assms
proof (induction i arbitrary: part1 ds kappa)
  case 0
  then have "digits ds" "10 ^ (length ds - 1) \<le> P" "unat delta \<le> unat part2" by auto
  moreover obtain l where l: "length ds = Suc l" using \<open>digits ds\<close> by (cases ds) (auto simp: digits_def)
  moreover have "10 ^ l * 2 ^ s < (2 :: nat) ^ 64"
  proof -
    have "10 ^ l * 2 ^ s \<le> P * 2 ^ s" using \<open>10 ^ (length ds - 1) \<le> P\<close> l by simp
    with 0(6) show ?thesis by linarith
  qed
  ultimately have "\<exists>ds' K'. fraction_digits (rev (take 19 tens)) K wfrac part2 delta s ds kappa = Some (ds', K') \<and> digits ds'"
    using 0 by (intro fraction_digits_total[where j = 0 and l = l]) (simp_all add: tens_def)
  then show ?case by (simp add: divisors_def)
next
  case (Suc i)
  note s = Suc.prems(1,2)
  let ?x = "unat part1" and ?t = "10 ^ i :: nat"
  have ten: "unat (10 ^ i :: u64) = ?t" using Suc.prems(3) by (intro unat_power_ten) simp
  define q where "q = part1 div 10 ^ i"
  have q: "unat q = ?x div ?t" unfolding q_def unat_div ten ..
  have q10: "unat q < 10" unfolding q using Suc.prems(4) by (intro less_mult_imp_div_less) simp
  have qt: "unat q * ?t + ?x mod ?t = ?x" unfolding q by (rule div_mult_mod_eq)
  define r where "r = part1 - ucast (ucast q :: 32 word) * 10 ^ i"
  have uq: "ucast (ucast q :: 32 word) = q"
    unfolding word_unat_eq_iff unsigned_ucast_eq[of "ucast q :: 32 word"] ucast_small[OF q10]
    using q10 by (simp add: take_bit_nat_eq_self)
  have "unat (q * 10 ^ i) = unat q * ?t"
    using qt unat_less_64[of part1] by (subst unat_mult_64) (simp_all add: ten)
  then have r: "unat r = ?x mod ?t"
    unfolding r_def uq using qt by (subst unat_sub_64) (simp_all add: word_le_nat_alt)
  have r_le: "unat r \<le> ?x" unfolding r by (rule mod_less_eq_dividend)
  have up: "?x * 2 ^ s + unat part2 < 2 ^ 64" "unat r * 2 ^ s + unat part2 < 2 ^ 64"
    using Suc.prems(6) mult_le_mono1[OF Suc.prems(9), of "2 ^ s"] mult_le_mono1[OF r_le, of "2 ^ s"] by linarith+
  define t where "t = push_bit s r + part2"
  have "unat (push_bit s r) = unat r * 2 ^ s" using up(2) by (intro unat_shift_up) simp
  then have t: "unat t = unat r * 2 ^ s + unat part2" unfolding t_def using up(2) by (subst unat_add_64) simp_all
  let ?again = "\<lambda>ds1. integer_digits (divisors i) K wfrac r part2 delta s ds1 (kappa - 1)"
  let ?round = "\<lambda>ds1. map_option (\<lambda>x. (x, K + (kappa - 1))) (round_digit ds1 delta t (push_bit s (10 ^ i)) wfrac)"
  have eq: "integer_digits (divisors (Suc i)) K wfrac part1 part2 delta s ds kappa =
      (case put_digit ds q of None \<Rightarrow> None | Some ds1 \<Rightarrow> if t \<le> delta then ?round ds1 else ?again ds1)"
    unfolding divisors_Suc integer_digits.simps Let_def q_def[symmetric] r_def[symmetric] t_def[symmetric] ..
  have next_step: "\<exists>ds' K'. ?again ds1 = Some (ds', K') \<and> digits ds'"
    if "\<not> t \<le> delta" and "ds1 = [] \<and> unat r = P \<or> digits ds1 \<and> 10 ^ (length ds1 + i - 1) \<le> P" for ds1
    using that Suc.prems t by (intro Suc.IH) (simp_all add: r word_le_nat_alt le_trans[OF mod_less_eq_dividend])
  show ?case
  proof (cases "q = 0 \<and> ds = []")
    case True
    then have x: "?x = P" "unat r = ?x" using Suc.prems(10) qt r by (auto simp: digits_def)
    then have "\<not> t \<le> delta" using Suc.prems(13) by (simp add: word_le_nat_alt t)
    moreover have "put_digit ds q = Some []" using True by (subst put_digit_small[OF q10]) simp
    ultimately show ?thesis using next_step[of "[]"] x unfolding eq by simp
  next
    case False
    define ds1 where "ds1 = ds @ [digit_char (unat q)]"
    have few: "10 ^ (length ds1 + i - 1) \<le> P"
    proof (cases "ds = []")
      case True
      with False Suc.prems(10) have "0 < unat q" "?x = P" by (auto simp: digits_def unat_gt_0)
      then have "1 * ?t \<le> unat q * ?t" by (intro mult_le_mono1) simp
      then have "?t \<le> P" using qt \<open>?x = P\<close> by linarith
      with True show ?thesis by (simp add: ds1_def)
    next
      case False
      with Suc.prems(10) show ?thesis by (simp add: ds1_def)
    qed
    then have "(10 :: nat) ^ (length ds1 + i - 1) < 10 ^ 10" using Suc.prems(8) by linarith
    then have len: "length ds1 + i - 1 < 10" by (simp only: power_strict_increasing_iff)
    have dig: "digits ds1" using Suc.prems(10) len q10 by (auto simp: digits_def ds1_def)
    have put: "put_digit ds q = Some ds1"
      using False len by (auto simp: put_digit_small[OF q10] ds1_def)
    show ?thesis
    proof (cases "t \<le> delta")
      case True
      have "?t \<le> 10 ^ (length ds1 + i - 1)" by (intro power_increasing) (simp_all add: ds1_def)
      then have "?t * 2 ^ s \<le> P * 2 ^ s" using few by (intro mult_le_mono1) linarith
      then have "?t * 2 ^ s < 2 ^ 64" using Suc.prems(6) by linarith
      then have k: "unat (push_bit s (10 ^ i) :: u64) = ?t * 2 ^ s" using ten by (subst unat_shift_up) simp_all
      have "unat delta < (unat q * ?t + unat r) * 2 ^ s + unat part2" using Suc.prems(12) qt r by simp
      then have "unat delta \<le> unat q * unat (push_bit s (10 ^ i) :: u64) + unat t"
        unfolding k t by (simp add: algebra_simps)
      from round_digit_digits[OF dig[unfolded ds1_def] q10 True _ this, of wfrac] show ?thesis
        unfolding eq put using True k by (auto simp: ds1_def[symmetric])
    next
      case False
      with next_step[of ds1] few dig show ?thesis unfolding eq put by simp
    qed
  qed
qed

lemma generate_digits_total:
  assumes "digit_input up lo"
  shows "\<exists>ds K'. generate_digits w up lo K = Some (ds, K') \<and> digits ds"
proof -
  let ?u = "unat (fp_frac up)" and ?l = "unat (fp_frac lo)"
  define s where "s = nat (- fp_exp up)"
  have s: "32 \<le> s" "s \<le> 60" "- fp_exp up = int s" using assms by (auto simp: digit_input_def s_def)
  have u: "1 \<le> ?l" "?l + 766 \<le> ?u" "2 ^ 62 - 1 \<le> ?u" using assms by (simp_all add: digit_input_def)
  have e: "fp_exp up = - int s" using s(3) by simp
  define delta where "delta = fp_frac up - fp_frac lo"
  have d: "unat delta = ?u - ?l" unfolding delta_def using u by (intro unat_sub_64) (simp add: word_le_nat_alt)
  define p1 p2 where "p1 = drop_bit s (fp_frac up)" and "p2 = fp_frac up AND (push_bit s 1 - 1)"
  have p1: "unat p1 = ?u div 2 ^ s" unfolding p1_def by (rule unat_shift_down)
  have one: "push_bit s 1 = (2 ^ s :: u64)" by (simp add: push_bit_eq_mult)
  have p2: "unat p2 = ?u mod 2 ^ s" unfolding p2_def one by (rule unat_and_ones)
  have split: "unat p1 * 2 ^ s + unat p2 = ?u" unfolding p1 p2 by (rule div_mult_mod_eq)
  have "2 ^ s \<le> (2 :: nat) ^ 60" "(2 :: nat) ^ 32 \<le> 2 ^ s" using s(1,2) by (intro power_increasing; simp)+
  then have "2 ^ s \<le> ?u" "?u < 10 ^ 10 * 2 ^ s" using u(3) unat_less_64[of "fp_frac up"] by simp_all
  then have P: "1 \<le> unat p1" "unat p1 < 10 ^ 10"
    unfolding p1 by (simp_all add: div_greater_zero_iff less_mult_imp_div_less Suc_le_eq)
  have "\<exists>ds' K'. integer_digits (divisors 10) K (fp_frac up - fp_frac w) p1 p2 delta s [] 10 = Some (ds', K') \<and> digits ds'"
    using s P u d split unat_less_64[of "fp_frac up"]
    by (intro integer_digits_total[where P = "unat p1"]) (simp_all add: p2)
  moreover have "generate_digits w up lo K = integer_digits (divisors 10) K (fp_frac up - fp_frac w) p1 p2 delta s [] 10"
    using s(1,2) unfolding generate_digits_def Let_def p1_def p2_def delta_def tens_divisors e by simp
  ultimately show ?thesis by simp
qed

section \<open>A whole number\<close>

lemma build_fp_value:
  assumes "cast_bool d" and "d AND expmask \<noteq> expmask"
  shows "0 < unat (fp_frac (build_fp d)) \<and> unat (fp_frac (build_fp d)) < 2 ^ 53 \<and>
    - 1074 \<le> fp_exp (build_fp d) \<and> fp_exp (build_fp d) \<le> 971"
proof -
  let ?x = "unat d"
  have ones: "fracmask = 2 ^ 52 - 1" "hiddenbit = 2 ^ 52" by (simp_all add: fracmask_def hiddenbit_def)
  define e where "e = drop_bit 52 (d AND expmask)"
  have parts: "e = drop_bit 52 d AND 2 ^ 11 - 1" by (simp add: e_def drop_bit_and expmask_def)
  have e: "unat e = ?x div 2 ^ 52 mod 2 ^ 11" unfolding parts by (simp only: word_nat)
  have f: "unat (d AND fracmask) = ?x mod 2 ^ 52" unfolding ones by (rule unat_and_ones)
  have "expmask AND 2 ^ 52 - 1 = 0" by (simp add: expmask_def)
  then have "(d AND expmask) AND 2 ^ 52 - 1 = 0" unfolding and.assoc by (simp only: and_zero_eq)
  then have "unat (d AND expmask) mod 2 ^ 52 = 0" unfolding unat_and_ones[symmetric] by simp
  then have "unat (d AND expmask) = unat e * 2 ^ 52" using div_mult_mod_eq[of "unat (d AND expmask)" "2 ^ 52"] unfolding e_def unat_shift_down by simp
  moreover have "unat expmask = 2047 * 2 ^ 52" by (simp add: expmask_def)
  ultimately have "unat e \<noteq> 2047" using assms(2) by (auto simp: word_unat_eq_iff)
  moreover have "unat e < 2 ^ 11" unfolding e by simp
  ultimately have less: "unat e \<le> 2046" by simp
  have "?x mod (2 ^ 52 * 2 ^ 11) = 2 ^ 52 * (?x div 2 ^ 52 mod 2 ^ 11) + ?x mod 2 ^ 52"
    by (rule mod_mult2_eq)
  then have "?x mod 2 ^ 63 = 2 ^ 52 * (?x div 2 ^ 52 mod 2 ^ 11) + ?x mod 2 ^ 52"
    by (simp only: power_add[symmetric] numeral_plus_numeral add_num_simps)
  note parts63 = this
  have "int (?x mod 2 ^ 63) \<noteq> 0"
    using assms(1) unfolding cast_bool_def take_bit_eq_mod zmod_int uint_nat by simp
  then have "?x mod 2 ^ 63 \<noteq> 0" by (rule contrapos_nn) (simp only: of_nat_0)
  then have nz: "unat e = 0 \<Longrightarrow> ?x mod 2 ^ 52 \<noteq> 0"
    unfolding parts63 e[symmetric] by simp
  have hidden_sum: "unat w < 2 ^ 52 \<Longrightarrow> unat (w + 2 ^ 52) = unat w + 2 ^ 52" for w :: u64
    by (subst unat_add_64) simp_all
  have "unat (d AND fracmask) < 2 ^ 52" unfolding f by simp
  moreover from this have "unat ((d AND fracmask) + hiddenbit) = unat (d AND fracmask) + 2 ^ 52"
    unfolding ones(2) using hidden_sum by simp
  moreover have "uint e \<le> 2046" "uint e \<noteq> 0 \<Longrightarrow> 1 \<le> uint e" using less unfolding uint_nat by linarith+
  moreover have "uint e = 0 \<Longrightarrow> ?x mod 2 ^ 52 \<noteq> 0" using nz unfolding uint_nat by linarith
  ultimately show ?thesis
    using f unfolding build_fp_def Let_def e_def[symmetric] by (auto simp: expbias_def)
qed

lemma grisu2_total:
  assumes "cast_bool d" and "d AND expmask \<noteq> expmask"
  shows "\<exists>ds K. grisu2 d = Some (ds, K) \<and> digits ds"
proof -
  let ?w = "build_fp d"
  note w = build_fp_value[OF assms]
  obtain lo up where b: "get_normalized_boundaries ?w = Some (lo, up)" "boundaries ?w lo up"
    using boundaries_total[of ?w] w by auto
  obtain w1 where n: "normalize ?w = Some w1" using normalize_total[of ?w] w by auto
  have "- 1137 \<le> fp_exp up" "fp_exp up \<le> 960" using b(2) w by (simp_all add: boundaries_def)
  then obtain cp k where c: "find_cachedpow10 (fp_exp up) = Some (cp, k)" "in_window (fp_exp up) cp k"
    using cachedpow10_found by blast
  from generate_digits_total[OF scaled_boundaries[OF b(2) c(2)]] show ?thesis
    by (simp add: grisu2_def b(1) n c(1) Let_def)
qed

lemma emit_digits_total:
  assumes "digits ds"
  shows "\<exists>t. emit_digits ds K neg = Some t \<and> length t + of_bool neg \<le> 26"
proof -
  have len: "ds \<noteq> []" "length ds \<le> 18" using assms by (simp_all add: digits_def)
  define n e where "n = int (length ds)" and "e = \<bar>K + n - 1\<bar>"
  have n: "1 \<le> n" "n \<le> 18" "length ds = nat n" using len by (simp_all add: n_def Suc_le_eq)
  consider "K \<ge> 0 \<and> e < n + 7" | "\<not> (K \<ge> 0 \<and> e < n + 7)" "K < 0 \<and> (K > -7 \<or> e < 4)"
    | "\<not> (K \<ge> 0 \<and> e < n + 7)" "\<not> (K < 0 \<and> (K > -7 \<or> e < 4))" by blast
  then show ?thesis
  proof cases
    case 1
    then have "emit_digits ds K neg = Some (ds @ replicate (nat K) (CHR ''0''))"
      unfolding emit_digits_def Let_def e_def n_def by simp
    moreover have "K \<le> 7" using 1 unfolding e_def by linarith
    then have "nat K \<le> 7" by simp
    ultimately show ?thesis using len(2) by simp
  next
    case 2
    then have "emit_digits ds K neg = Some (if n - \<bar>K\<bar> \<le> 0 then ''0.'' @ replicate (nat (- (n - \<bar>K\<bar>))) (CHR ''0'') @ ds
        else take (nat (n - \<bar>K\<bar>)) ds @ ''.'' @ drop (nat (n - \<bar>K\<bar>)) ds)"
      unfolding emit_digits_def Let_def e_def n_def by simp
    with 2 n show ?thesis by (auto simp: e_def)
  next
    case 3
    define nd where "nd = min n (18 - of_bool neg)"
    define t where "t = [hd ds] @ (if nd > 1 then ''.'' @ take (nat (nd - 1)) (tl ds) else []) @
      ''e'' @ [if K + nd - 1 < 0 then CHR ''-'' else CHR ''+''] @ emit_exponent e"
    have "emit_digits ds K neg =
        (if K \<ge> 0 \<and> e < n + 7 then Some (ds @ replicate (nat K) (CHR ''0''))
         else if K < 0 \<and> (K > -7 \<or> e < 4) then
           (if n - \<bar>K\<bar> \<le> 0 then Some (''0.'' @ replicate (nat (- (n - \<bar>K\<bar>))) (CHR ''0'') @ ds)
            else Some (take (nat (n - \<bar>K\<bar>)) ds @ ''.'' @ drop (nat (n - \<bar>K\<bar>)) ds))
         else if ds = [] then None else Some t)"
      unfolding emit_digits_def Let_def e_def n_def nd_def t_def ..
    then have "emit_digits ds K neg = Some t" by (simp only: 3 len(1) if_False)
    moreover have "length (emit_exponent e) \<le> 3" by (simp add: emit_exponent_def Let_def)
    then have "length t \<le> 1 + (1 + nat (nd - 1)) + 2 + 3" by (auto simp: t_def min_def)
    moreover have "1 + (1 + nat (nd - 1)) + 2 + 3 \<le> 25 - of_bool neg" using n by (auto simp: nd_def min_def)
    ultimately have "emit_digits ds K neg = Some t \<and> length t \<le> 25 - of_bool neg" by (metis le_trans)
    then show ?thesis by auto
  qed
qed

text \<open>Every double is converted, to at most 26 characters.\<close>

lemma fpconv_dtoa_total: "\<exists>t. fpconv_dtoa d = Some t \<and> length t \<le> 26"
proof (cases "filter_special d")
  case (Some t)
  then have "length t \<le> 3" by (auto simp: filter_special_def split: if_splits)
  with Some show ?thesis by (auto simp: fpconv_dtoa_def Let_def)
next
  case None
  then have "cast_bool d" "d AND expmask \<noteq> expmask" by (auto simp: filter_special_def split: if_splits)
  then obtain ds K where g: "grisu2 d = Some (ds, K)" "digits ds" using grisu2_total by blast
  obtain t where "emit_digits ds K (d AND signmask \<noteq> 0) = Some t" "length t + of_bool (d AND signmask \<noteq> 0) \<le> 26"
    using emit_digits_total[OF g(2)] by blast
  then show ?thesis using None g(1) by (auto simp: fpconv_dtoa_def Let_def)
qed

end
