(* ===== verification/Json_Print_Text.thy ===== *)
theory Json_Print_Text
  imports Json_Print Json_Text Fpconv_Digits
begin

text \<open>
  What \<open>toString\<close> writes is a text of the value in the sense of the parser, for the values that
  survive being written; and for every value without a string that was moved away it writes
  something.
\<close>

section \<open>Strings\<close>

definition printed :: "char \<Rightarrow> string" where
  "printed c =
     (if below_space c then short_escape c
      else if c = CHR 0x22 then [CHR 0x5C, CHR 0x22]
      else if c = CHR 0x5C then [CHR 0x5C, CHR 0x5C] else [c])"

lemma strToString_loop_printed:
  "strToString_loop b st s = b @ st @ concat (map printed s)"
  by (induction b st s rule: strToString_loop.induct) (simp_all add: printed_def)

lemma strToString_printed: "strToString b s = b @ CHR 0x22 # concat (map printed s) @ [CHR 0x22]"
  by (simp add: strToString_def strToString_loop_printed)

text \<open>The characters that are not lost: ASCII, without the control characters that have no short escape.\<close>

definition kept :: "char \<Rightarrow> bool" where
  "kept c \<longleftrightarrow> \<not> below_space c \<or> c \<in> {CHR 0x08, CHR 0x0C, CHR 0x0A, CHR 0x0D, CHR 0x09}"

lemma parse_printed:
  assumes "kept c"
  shows "parse_chars ord a acc (printed c @ r) = parse_chars ord a (acc @ [c]) r"
proof -
  have low: "of_char c < (0x20 :: nat) \<Longrightarrow> below_space c" by (simp add: below_space_def)
  show ?thesis
    using assms low by (auto simp: kept_def printed_def short_escape_def simple_escape_def below_space_def)
qed

lemma parse_chars_printed:
  "\<forall>c \<in> set s. kept c \<Longrightarrow> parse_chars ord a acc (concat (map printed s) @ CHR 0x22 # r) = Parsed (acc @ s) r"
  by (induction s arbitrary: acc) (simp_all add: parse_printed)

lemma printed_no_NUL: "kept c \<Longrightarrow> CHR 0x00 \<notin> set (printed c)"
  by (auto simp: kept_def printed_def short_escape_def below_space_def)

text \<open>A text that stands for a value wherever a value can stand, without a NUL.\<close>

definition prints :: "eval_order \<Rightarrow> string \<Rightarrow> Value \<Rightarrow> bool" where
  "prints ord t v \<longleftrightarrow> value_text ord t v \<and> CHR 0x00 \<notin> set t"

lemma string_prints:
  assumes "\<forall>c \<in> set s. kept c"
  shows "prints ord (CHR 0x22 # concat (map printed s) @ [CHR 0x22]) (VT_STRING s)"
  using assms parse_chars_printed[OF assms] printed_no_NUL
  by (auto simp: prints_def value_text_def notWS_def parseString_def intro!: vp_string)

section \<open>Arrays and objects\<close>

interpretation written: json_text ord "\<lambda>x. prints ord (fst x) (snd x)" fst snd for ord
  by unfold_locales (simp add: prints_def)

definition member_prints :: "eval_order \<Rightarrow> json_member \<Rightarrow> bool" where
  "member_prints ord e \<longleftrightarrow> plain (fst e) \<and> fst e \<noteq> [] \<and> prints ord (fst (snd e)) (snd (snd e))"

lemma commas_no_NUL: "\<forall>t \<in> set ts. CHR 0x00 \<notin> set t \<Longrightarrow> CHR 0x00 \<notin> set (commas ts)"
  by (cases ts) auto

lemma array_prints:
  assumes "\<forall>x \<in> set xs. prints ord (fst x) (snd x)"
  shows "prints ord (''['' @ commas (map fst xs) @ '']'') (VT_ARRAY (map snd xs))"
  using written.array_text[OF assms] commas_no_NUL[of "map fst xs"] assms by (auto simp: prints_def)

definition members_of :: "json_member list \<Rightarrow> (string \<times> Value) list" where
  "members_of es = map (\<lambda>e. (fst e, snd (snd e))) es"

lemma map_put_last: "\<forall>p \<in> set m. fst p < k \<Longrightarrow> map_put k v m = m @ [(k, v)]"
  by (induction k v m rule: map_put.induct) auto

lemma put_members_sorted: "map_ok (members_of es) \<Longrightarrow> foldl put_member [] es = members_of es"
proof (induction es rule: rev_induct)
  case (snoc e es)
  then have "map_ok (members_of es)" "\<forall>p \<in> set (members_of es). fst p < fst e"
    by (auto simp: map_ok_def members_of_def sorted_wrt_append)
  with snoc.IH show ?case by (simp add: put_member_def members_of_def map_put_last)
qed (simp add: members_of_def)

lemma member_prints_ok: "member_prints ord e \<Longrightarrow> member_ok ord e \<and> CHR 0x00 \<notin> set (member_text e)"
  using plain_no_NUL[of "fst e"] by (auto simp: member_prints_def member_ok_def prints_def member_text_def quoted_def)

lemma object_prints:
  assumes "\<forall>e \<in> set es. member_prints ord e" and "map_ok (members_of es)"
  shows "prints ord (object_text es) (VT_OBJECT (Object (members_of es) It_end))"
proof -
  have "\<forall>e \<in> set es. member_ok ord e" using assms(1) member_prints_ok by blast
  then have "value_text ord (object_text es) (object_of es)" by (rule object_value_text)
  moreover have "\<forall>t \<in> set (map member_text es). CHR 0x00 \<notin> set t"
    using assms(1) member_prints_ok[of ord] by auto
  then have "CHR 0x00 \<notin> set (object_text es)" using commas_no_NUL by (simp add: object_text_def)
  ultimately show ?thesis by (simp add: prints_def object_of_def put_members_sorted[OF assms(2)])
qed

section \<open>Values\<close>

text \<open>A number that is printed as a decimal integer which reads back as the number.\<close>

definition printable_number :: "double \<Rightarrow> bool" where
  "printable_number n \<longleftrightarrow> (\<exists>k. n = dbl_of_ratio (int k) 1 \<and> fpconv_dtoa n = Some (to_string k))"

text \<open>
  The values that survive being written: keys are not escaped, so they are plain; a map is in the
  order of its keys; a freshly parsed object has its iterator at the end.
\<close>

fun printable :: "Value \<Rightarrow> bool" where
  "printable VT_NULL = True"
| "printable (VT_BOOL b) = True"
| "printable (VT_NUMBER n) = printable_number n"
| "printable (VT_STRING s) = (\<forall>c \<in> set s. kept c)"
| "printable VT_STRING_gone = False"
| "printable (VT_ARRAY vs) = (\<forall>v \<in> set vs. printable v)"
| "printable (VT_OBJECT (Object m i)) =
     (i = It_end \<and> map_ok m \<and> (\<forall>p \<in> set m. plain (fst p) \<and> fst p \<noteq> [] \<and> printable (snd p)))"

lemma number_prints:
  assumes "printable_number n"
  shows "\<exists>t. numToString b n = Some (b @ t) \<and> prints ord t (VT_NUMBER n)"
proof -
  obtain k where k: "n = dbl_of_ratio (int k) 1" "fpconv_dtoa n = Some (to_string k)"
    using assms unfolding printable_number_def by blast
  obtain t where t: "fpconv_dtoa n = Some t" "length t \<le> 26" using fpconv_dtoa_total by blast
  with k(2) have "numToString b n = Some (b @ to_string k)" by (simp add: numToString_def)
  moreover have "prints ord (to_string k) (VT_NUMBER n)"
    using number_text[of ord k] to_string_digits[of "CHR 0x00" k] by (auto simp: prints_def k(1) is_digit_def)
  ultimately show ?thesis by blast
qed

definition separated :: "bool \<Rightarrow> string list \<Rightarrow> string" where
  "separated first ts = (if first then commas ts else concat (map (\<lambda>t. '','' @ t) ts))"

lemma separated_Cons: "separated first (t # ts) = (if first then t else '','' @ t) @ separated False ts"
proof -
  have "(@) '','' = (#) (CHR '','')" by auto
  then show ?thesis by (simp add: separated_def)
qed

lemma toString_prints:
  "printable v \<Longrightarrow> \<exists>t. toStringRecurse b v = Some (b @ t) \<and> prints ord t v"
  "\<forall>p \<in> set m. plain (fst p) \<and> fst p \<noteq> [] \<and> printable (snd p) \<Longrightarrow>
     \<exists>es. members_toString b first m = Some (b @ separated first (map member_text es)) \<and> members_of es = m \<and>
       (\<forall>e \<in> set es. member_prints ord e)"
  "\<forall>v \<in> set vs. printable v \<Longrightarrow>
     \<exists>xs. elements_toString b first vs = Some (b @ separated first (map fst xs)) \<and> map snd xs = vs \<and>
       (\<forall>x \<in> set xs. prints ord (fst x) (snd x))"
proof (induction b v and b first m and b first vs rule: toStringRecurse_members_toString_elements_toString.induct)
  case (1 b m i)
  then obtain es where es: "members_toString (b @ ''{'') True m = Some ((b @ ''{'') @ separated True (map member_text es))"
      "members_of es = m" "\<forall>e \<in> set es. member_prints ord e" by auto
  have "prints ord (object_text es) (VT_OBJECT (Object m i))" using object_prints[OF es(3)] 1 es(2) by simp
  with es(1) show ?case by (intro exI[of _ "object_text es"]) (simp add: object_text_def separated_def)
next
  case (2 b vs)
  then obtain xs where xs: "elements_toString (b @ ''['') True vs = Some ((b @ ''['') @ separated True (map fst xs))"
      "map snd xs = vs" "\<forall>x \<in> set xs. prints ord (fst x) (snd x)" by auto
  with array_prints[OF xs(3)] show ?case
    by (intro exI[of _ "''['' @ commas (map fst xs) @ '']''"]) (simp add: separated_def)
next
  case (3 b s)
  then show ?case using string_prints[of s ord] by (simp add: strToString_printed)
next
  case (5 b n)
  then show ?case using number_prints by simp
next
  case (6 b x)
  have "value_text ord (if x then ''true'' else ''false'') (VT_BOOL x)"
    using vp_keywords by (auto simp: value_text_def notWS_def)
  then show ?case by (intro exI[of _ "if x then ''true'' else ''false''"]) (simp add: prints_def)
next
  case (7 b)
  have "value_text ord ''null'' VT_NULL" using vp_keywords by (auto simp: value_text_def notWS_def)
  then show ?case by (simp add: prints_def)
next
  case (8 b first)
  then show ?case by (intro exI[of _ "[]"]) (simp add: separated_def members_of_def)
next
  case (9 b first k v ms)
  let ?b = "b @ (if first then [CHR 0x22] else [CHR '','', CHR 0x22]) @ k @ [CHR 0x22, CHR '':'']"
  obtain t where t: "toStringRecurse ?b v = Some (?b @ t)" "prints ord t v" using 9 by auto
  obtain es where es: "members_toString (?b @ t) False ms = Some ((?b @ t) @ separated False (map member_text es))"
      "members_of es = ms" "\<forall>e \<in> set es. member_prints ord e" using 9 t(1) by auto
  moreover have "member_text (k, t, v) = CHR 0x22 # k @ CHR 0x22 # CHR '':'' # t"
    by (simp add: member_text_def quoted_def)
  ultimately show ?case using t 9(3)
    by (intro exI[of _ "(k, t, v) # es"]) (auto simp: separated_Cons members_of_def member_prints_def)
next
  case (10 b first)
  then show ?case by (intro exI[of _ "[]"]) (simp add: separated_def)
next
  case (11 b first v vs)
  let ?b = "b @ (if first then [] else '','')"
  obtain t where t: "toStringRecurse ?b v = Some (?b @ t)" "prints ord t v" using 11 by auto
  obtain xs where xs: "elements_toString (?b @ t) False vs = Some ((?b @ t) @ separated False (map fst xs))"
      "map snd xs = vs" "\<forall>x \<in> set xs. prints ord (fst x) (snd x)" using 11 t(1) by auto
  then show ?case using t by (intro exI[of _ "(t, v) # xs"]) (auto simp: separated_Cons)
qed simp_all

section \<open>Writing never fails\<close>

lemma numToString_total: "\<exists>t. numToString b n = Some (b @ t) \<and> fpconv_dtoa n = Some t \<and> length t \<le> 26"
  using fpconv_dtoa_total[of n] by (auto simp: numToString_def)

text \<open>No string inside of the value has lost its pointer.\<close>

fun intact :: "Value \<Rightarrow> bool" where
  "intact VT_STRING_gone = False"
| "intact (VT_ARRAY vs) = (\<forall>v \<in> set vs. intact v)"
| "intact (VT_OBJECT (Object m i)) = (\<forall>p \<in> set m. intact (snd p))"
| "intact _ = True"

lemma toString_defined:
  "intact v \<Longrightarrow> \<exists>t. toStringRecurse b v = Some t"
  "\<forall>p \<in> set m. intact (snd p) \<Longrightarrow> \<exists>t. members_toString b first m = Some t"
  "\<forall>v \<in> set vs. intact v \<Longrightarrow> \<exists>t. elements_toString b first vs = Some t"
proof (induction b v and b first m and b first vs rule: toStringRecurse_members_toString_elements_toString.induct)
  case (5 b n)
  then show ?case using numToString_total[of b n] by auto
qed (auto split: option.split split del: if_split)

end
