(* ===== verification/Json_Props.thy ===== *)
theory Json_Props
  imports Json_Safe Json_Text Json_Print_Text
begin

text \<open>
  The properties of the JSON parser and of the values it builds that the server and its clients
  rely on.
\<close>

section \<open>The parser ends, inside the text\<close>

text \<open>C19. Parsing ends on every text: the fuel of the model, three units per character and three
  more, never runs out, whatever the order in which operands are evaluated.\<close>

theorem parser_ends:
  "parse_document ho (parse_fuel s) PS_SEEK_BEG VT_NULL s \<noteq> No_fuel"
  by (rule fromString_fuel)

text \<open>C18. When the operands of a unicode escape are evaluated from left to right, \<open>fromString\<close>
  on any text either returns a value or throws a parse error whose position counts back from the
  end of the text by no more than its length: it reads nothing behind the terminating NUL, and
  the offset it computes does not wrap around.\<close>

theorem fromString_total:
  "(\<exists>v. fromString [0, 1, 2, 3] s = Return v) \<or>
   (\<exists>msg n. n \<le> length (c_str s) \<and> fromString [0, 1, 2, 3] s = Throw (parse_error msg (length (c_str s) - n)))"
  using fromString_sane[of s] unfolding left_to_right_def .

text \<open>The order matters: C++ leaves it open, and with the operands evaluated from right to
  left a text that ends in a unicode escape with no digits is read behind its end.\<close>

lemma escape_overread:
  "fromString [3, 2, 1, 0] (CHR ''['' # CHR 0x22 # CHR 0x5C # ''u'') = Undefined \<and>
   fromString [0, 1, 2, 3] (CHR ''['' # CHR 0x22 # CHR 0x5C # ''u'') = Throw (parse_error ''Invalid character'' 4)"
  by code_simp








section \<open>What is accepted\<close>

lemma dp_array_twice: "array_parses ord PS_SEEK_VAL [] s v (CHR 0x5D # []) \<Longrightarrow> document_parses ord (CHR 0x5B # s) v"
proof -
  assume "array_parses ord PS_SEEK_VAL [] s v (CHR 0x5D # [])"
  then obtain f where "\<And>a. parse_array ord f a PS_SEEK_VAL [] s = Parsed v (CHR 0x5D # [])"
    unfolding array_parses_def by blast
  then have "parse_array ord (Suc (Suc f)) a PS_SEEK_VAL [] s = Parsed v (CHR 0x5D # [])" for a
    using parse_array_mono[of ord f a PS_SEEK_VAL "[]" s v _ "Suc (Suc f)"] by simp
  then have "parse_document ord (Suc (Suc (Suc f))) PS_SEEK_BEG VT_NULL (CHR 0x5B # s) = Parsed v []"
    by (simp add: document_round_def del: parse_array.simps)
  then show ?thesis unfolding document_parses_def by blast
qed

text \<open>A text is a document of strings: an array of quoted strings with commas between them.\<close>

definition strings_text :: "string list \<Rightarrow> string" where
  "strings_text ss = ''['' @ commas (map quoted ss) @ '']''"

lemma strings_text_no_NUL: "\<forall>s \<in> set ss. plain s \<Longrightarrow> CHR 0x00 \<notin> set (strings_text ss)"
proof -
  assume "\<forall>s \<in> set ss. plain s"
  then have "CHR 0x00 \<notin> set (quoted s)" if "s \<in> set ss" for s
    using plain_no_NUL[of s] that by (simp add: quoted_def)
  then show ?thesis unfolding strings_text_def by (cases ss) auto
qed

text \<open>An array written with quotes and commas parses to the array of the strings it was written
  from, for strings without quotes, backslashes and control characters.\<close>

lemma strings_parse:
  assumes "\<forall>s \<in> set ss. plain s"
  shows "fromString ho (strings_text ss) = Return (VT_ARRAY (map VT_STRING ss))"
proof (rule fromString_document)
  show "document_parses ho (c_str (strings_text ss)) (VT_ARRAY (map VT_STRING ss))"
    unfolding c_str_id[OF strings_text_no_NUL[OF assms]]
    using strings.array_document[OF assms] by (simp add: strings_text_def)
qed

text \<open>The parser does not check that a document ends where its value ends: a second closing
  bracket is skipped, so the text with the bracket twice parses to the same value.\<close>

lemma closing_bracket_twice:
  assumes "\<forall>s \<in> set ss. plain s"
  shows "fromString ho (strings_text ss @ '']'') = Return (VT_ARRAY (map VT_STRING ss))"
proof (rule fromString_document)
  have "CHR 0x00 \<notin> set (strings_text ss @ '']'')" using strings_text_no_NUL[OF assms] by simp
  then have "c_str (strings_text ss @ '']'') = strings_text ss @ '']''" by (rule c_str_id)
  then show "document_parses ho (c_str (strings_text ss @ '']'')) (VT_ARRAY (map VT_STRING ss))"
    using strings.items[OF assms, of ho "CHR 0x5D # []"] by (simp add: strings_text_def dp_array_twice)
qed

lemma closing_bracket_twice_witness:
  "fromString [0, 1, 2, 3] (strings_text [''a''] @ '']'') = Return (VT_ARRAY (map VT_STRING [''a'']))"
  by (rule closing_bracket_twice) (simp add: plain_char_def)

section \<open>Numbers\<close>

text \<open>C32. Decimal numbers below \<open>2 ^ 53\<close> are read exactly, up to the character that ends them:
  converting the number read to an integer gives the integer written.\<close>

theorem integers_exact:
  assumes "n < 2 ^ 53" and "number_end r"
  shows "\<exists>d. parseNumber (to_string n @ r) = Parsed d r \<and> cast_size_t d = Return (word_of_nat n) \<and>
    (n < 256 \<longrightarrow> cast_u8 d = Return (word_of_nat n))"
  using cast_exact[OF assms(1)] strtod_to_string[OF assms(2), of n] by (simp add: parseNumber_def)

lemma integers_exact_witness:
  "\<exists>d. parseNumber (to_string 5000000000 @ ''}'') = Parsed d ''}'' \<and> cast_size_t d = Return 5000000000"
  using integers_exact[of 5000000000 "''}''"] by (auto simp: number_end_def is_digit_def lower_def)

section \<open>Looking up keys\<close>

text \<open>Testing a key and then reading through the iterator that the test left is the same as
  reading the key directly, for values that exist and have the type asked for or convert to it.\<close>

lemma has_then_as:
  assumes "fst (Object_has obj k)"
  shows "Object_asString (snd (Object_has obj k)) = Object_getString obj k \<and>
    Object_asNumber (snd (Object_has obj k)) = Object_getNumber obj k \<and>
    Object_asArray (snd (Object_has obj k)) = Object_getArray obj k \<and>
    Object_asObject (snd (Object_has obj k)) = Object_getObject obj k \<and>
    Object_value (snd (Object_has obj k)) = Object_getValue obj k \<and>
    (\<forall>b. Object_asBool (snd (Object_has obj k)) = Return b \<longleftrightarrow> Object_getBool obj k = Return b)"
proof -
  from assms obtain v where "map_find (m_map obj) k = Some v" and "snd (Object_has obj k) = Object (m_map obj) (It_at k)"
    by (auto simp: Object_has_def split: option.splits)
  then show ?thesis
    by (auto simp: at_iter_def Object_asString_def Object_getString_def Object_asNumber_def Object_getNumber_def
        Object_asArray_def Object_getArray_def Object_asObject_def Object_getObject_def Object_value_def
        Object_getValue_def Object_asBool_def Object_getBool_def read_bool_def split: Value.split)
qed

lemma has_then_as_witness:
  "Object_asNumber (snd (Object_has (Object [(''n'', VT_BOOL True)] It_end) ''n'')) =
     Object_getNumber (Object [(''n'', VT_BOOL True)] It_end) ''n''"
proof -
  have "fst (Object_has (Object [(''n'', VT_BOOL True)] It_end) ''n'')" by code_simp
  then show ?thesis using has_then_as by blast
qed

section \<open>Writing and reading back\<close>



text \<open>C30. Every double is written inside of the space that \<open>numToString\<close> makes for it: no loop of
  the conversion runs forever, no array is left, and the text has at most 26 of the 50 characters.
  So writing a value fails only where a string was moved away.\<close>

theorem numbers_always_printed:
  "(\<exists>t. fpconv_dtoa n = Some t \<and> length t \<le> 26 \<and> numToString b n = Some (b @ t)) \<and>
   (intact v \<longrightarrow> (\<exists>t. toString v = Some t))"
  using numToString_total[of b n] toString_defined(1)[of v "[]"] by (auto simp: toString_def)

lemma numbers_always_printed_witness:
  "\<exists>t. toString (VT_ARRAY [VT_NUMBER 0x7FEFFFFFFFFFFFFF, VT_NUMBER 1]) = Some t"
  using numbers_always_printed[of 0 "[]" "VT_ARRAY [VT_NUMBER 0x7FEFFFFFFFFFFFFF, VT_NUMBER 1]"] by simp

text \<open>C31. The product of two significands, computed from four products of halves, is the
  128-bit product rounded to its upper 64 bits; nothing wraps around on the way.\<close>

theorem multiply_rounds:
  "unat (fp_frac (multiply a b)) = (unat (fp_frac a) * unat (fp_frac b) + 2 ^ 63) div 2 ^ 64 \<and>
   fp_exp (multiply a b) = fp_exp a + fp_exp b + 64"
  by (rule multiply_value)

text \<open>The header of \<open>fpconv_dtoa\<close> promises 24 characters to be enough; this number takes 25.\<close>

lemma needs_25_characters:
  "fpconv_dtoa (dbl_sign True (dbl_of_ratio 123456789012345670000000 1)) = Some ''-123456789012345670000000''"
  by code_simp

text \<open>Keys are not escaped: the text written for an object can be one that the parser rejects.\<close>

lemma key_not_escaped:
  "toString (VT_OBJECT (Object [([CHR 0x22], VT_NULL)] It_end)) = Some ''{\"\"\":null}'' \<and>
   fromString [0, 1, 2, 3] ''{\"\"\":null}'' = Throw (parse_error ''Invalid key string'' 2)"
  by code_simp

text \<open>Bytes from \<open>0x80\<close> on count as negative and vanish from strings.\<close>

lemma bytes_dropped: "strToString [] [CHR ''x'', CHR 0xC3, CHR 0xA4, CHR ''y''] = [CHR 0x22, CHR ''x'', CHR ''y'', CHR 0x22]"
  by code_simp

end
