(* ===== verification/Server_Model.thy ===== *)
theory Server_Model
  imports Queue_Model Json_Text
begin

text \<open>
  The HTTP interface of the queue: the class \<open>Handler\<close> of \<open>server/QueueServer.cpp\<close>, one
  definition per endpoint, the route map, the construction of the server, and the options of
  \<open>server/mqserver.cpp\<close>. Poco is outside the repository: a request is a record of what the
  handler reads from it, and \<open>Poco::URI::getPath\<close> is the parameter \<open>uri_path\<close>.

  A handler runs in a thread of its own. Its result is an outcome: a response, \<open>Wait\<close> when the
  thread sleeps, \<open>Undefined\<close> when it converts a number that does not fit. Where the code leaves
  an order of evaluation open, the order is a parameter: \<open>ho\<close> for the operands of a unicode
  escape, \<open>ao\<close> for the arguments of a call. Where other threads can come between two steps of a
  handler, what they do to the queue is the parameter \<open>env\<close>.
\<close>

section \<open>Requests and responses\<close>

record http_request =
  req_method :: string
  req_uri :: string
  req_length :: int
  req_stream :: string

datatype HTTPStatus = HTTP_OK | HTTP_BAD_REQUEST | HTTP_NOT_FOUND | HTTP_METHOD_NOT_ALLOWED

record http_response =
  resp_status :: HTTPStatus
  resp_type :: string
  resp_body :: string

definition sendResponse :: "string option \<Rightarrow> HTTPStatus \<Rightarrow> http_response" where
  "sendResponse a_payload a_status =
     \<lparr> resp_status = a_status, resp_type = ''application/json'',
       resp_body = (case a_payload of Some p \<Rightarrow> p | None \<Rightarrow> []) \<rparr>"

text \<open>
  The body has the announced length; what the stream does not deliver stays zero.
\<close>

definition readBody :: "http_request \<Rightarrow> string" where
  "readBody a_request =
     (let size = nat (req_length a_request)
      in take size (req_stream a_request) @ replicate (size - length (req_stream a_request)) (CHR 0x00))"



definition error_reply :: "exn \<Rightarrow> http_response" where
  "error_reply e =
     sendResponse (Some (''{'' @ quoted ''type'' @ '':'' @ quoted ''error'' @ '','' @ quoted ''message'' @ '':'' @
       CHR 0x22 # what e @ [CHR 0x22] @ ''}'')) HTTP_BAD_REQUEST"

definition not_allowed :: http_response where
  "not_allowed = sendResponse None HTTP_METHOD_NOT_ALLOWED"

text \<open>The \<open>catch\<close> clause that the handlers share.\<close>

definition catching :: "http_response outcome \<times> Queue \<Rightarrow> http_response outcome \<times> Queue" where
  "catching r = (case r of (Throw e, q) \<Rightarrow> (Return (error_reply e), q) | _ \<Rightarrow> r)"

text \<open>
  Arguments of a call: \<open>parts\<close> are the computations by position; the first in the order \<open>ao\<close>
  that does not return decides.
\<close>

fun eval_args :: "eval_order \<Rightarrow> (nat \<Rightarrow> unit outcome) \<Rightarrow> unit outcome" where
  "eval_args [] parts = Return ()"
| "eval_args (k # ks) parts = bind_outcome (parts k) (\<lambda>_. eval_args ks parts)"

definition returns :: "'a outcome \<Rightarrow> unit outcome" where
  "returns r = bind_outcome r (\<lambda>_. Return ())"

definition args3 :: "eval_order \<Rightarrow> 'a outcome \<Rightarrow> 'b outcome \<Rightarrow> 'c outcome \<Rightarrow> ('a \<times> 'b \<times> 'c) outcome" where
  "args3 ao a b c =
     bind_outcome (eval_args ao (\<lambda>k. if k = 0 then returns a else if k = 1 then returns b else returns c))
       (\<lambda>_. bind_outcome a (\<lambda>x. bind_outcome b (\<lambda>y. bind_outcome c (\<lambda>z. Return (x, y, z)))))"

definition args4 ::
  "eval_order \<Rightarrow> 'a outcome \<Rightarrow> 'b outcome \<Rightarrow> 'c outcome \<Rightarrow> 'd outcome \<Rightarrow> ('a \<times> 'b \<times> 'c \<times> 'd) outcome" where
  "args4 ao a b c d =
     bind_outcome (eval_args ao (\<lambda>k. if k = 0 then returns a else if k = 1 then returns b
         else if k = 2 then returns c else returns d))
       (\<lambda>_. bind_outcome a (\<lambda>x. bind_outcome b (\<lambda>y. bind_outcome c (\<lambda>z. bind_outcome d (\<lambda>w. Return (x, y, z, w))))))"

section \<open>Publishing\<close>

definition PingRequest :: "http_request \<Rightarrow> http_response" where
  "PingRequest a_request =
     (if req_method a_request = ''POST'' then sendResponse None HTTP_OK else not_allowed)"

text \<open>
  The arguments of the call of \<open>push\<close> for one element \<open>m\<close> of the array, which is the object
  \<open>msg\<close>. The delay is read with \<open>m->asNumber()\<close>, the conversion of the element itself.
\<close>

definition push_args :: "eval_order \<Rightarrow> Value \<Rightarrow> Object \<Rightarrow> (string \<times> u8 \<times> u64) outcome" where
  "push_args ao m msg =
     args3 ao (Object_getString msg ''id'')
       (bind_outcome (Object_getNumber msg ''pri'') cast_u8)
       (bind_outcome (if fst (Object_has msg ''del'') then Value_asNumber m else Return 0) cast_size_t)"

text \<open>
  The loop over the array. With no room in the queue the thread sleeps and looks again: the
  outcome \<open>Wait\<close>, with the elements not yet pushed, from which the loop goes on. Between the
  count and the push other threads may run (\<open>env\<close>). \<open>clock\<close> gives the readings of the clock in
  the two calls that a push makes for the n-th element.
\<close>

fun push_loop ::
  "eval_order \<Rightarrow> (Queue \<Rightarrow> Queue) \<Rightarrow> (nat \<Rightarrow> timestamp \<times> timestamp) \<Rightarrow> nat \<Rightarrow> Value list \<Rightarrow> Queue \<Rightarrow>
    unit outcome \<times> Value list \<times> Queue"
where
  "push_loop ao env clock n [] q = (Return (), [], q)"
| "push_loop ao env clock n (m # ms) q =
     (case Value_asObject m of
        Return msg \<Rightarrow>
          (let msg1 = snd (Object_has (snd (Object_has (snd (Object_has msg ''id'')) ''pri'')) ''del'') in
           if snd (snd (getCounts q)) = 0 then (Wait, m # ms, q)
           else
             (let q1 = env q in
              case push_args ao m msg1 of
                Return (i, pri, del) \<Rightarrow>
                  (case push q1 i pri del (fst (clock n)) (snd (clock n)) of
                     (Return _, q2) \<Rightarrow> push_loop ao env clock (n + 1) ms q2
                   | (Throw e, q2) \<Rightarrow> (Throw e, m # ms, q2)
                   | (Wait, q2) \<Rightarrow> (Wait, m # ms, q2)
                   | (Undefined, q2) \<Rightarrow> (Undefined, m # ms, q2))
              | Throw e \<Rightarrow> (Throw e, m # ms, q1)
              | Wait \<Rightarrow> (Wait, m # ms, q1)
              | Undefined \<Rightarrow> (Undefined, m # ms, q1)))
      | Throw e \<Rightarrow> (Throw e, m # ms, q)
      | Wait \<Rightarrow> (Wait, m # ms, q)
      | Undefined \<Rightarrow> (Undefined, m # ms, q))"

definition PushRequest ::
  "eval_order \<Rightarrow> eval_order \<Rightarrow> (Queue \<Rightarrow> Queue) \<Rightarrow> (nat \<Rightarrow> timestamp \<times> timestamp) \<Rightarrow> http_request \<Rightarrow> Queue \<Rightarrow>
    http_response outcome \<times> Queue"
where
  "PushRequest ho ao env clock a_request q =
     (if req_method a_request = ''POST'' then
        catching
          (case bind_outcome (fromString ho (readBody a_request)) Value_asArray of
             Return arr \<Rightarrow>
               (case push_loop ao env clock 0 arr q of
                  (r, _, q1) \<Rightarrow> (bind_outcome r (\<lambda>_. Return (sendResponse None HTTP_OK)), q1))
           | Throw e \<Rightarrow> (Throw e, q)
           | Wait \<Rightarrow> (Wait, q)
           | Undefined \<Rightarrow> (Undefined, q))
      else (Return not_allowed, q))"

section \<open>Consuming\<close>

text \<open>The document that carries a message to a consumer.\<close>

definition msg_reply :: "Msg_t \<Rightarrow> http_response" where
  "msg_reply msg =
     sendResponse (Some (''{'' @ quoted ''type'' @ '':'' @ quoted ''msg'' @ '','' @ quoted ''id'' @ '':'' @
       CHR 0x22 # msg_id msg @ CHR 0x22 # '','' @ quoted ''tok'' @ '':'' @ CHR 0x22 # msg_token msg @ CHR 0x22 # ''}''))
       HTTP_OK"

text \<open>
  \<open>pop\<close> returns a reference into the queue, and the reply is put together after the lock is
  released: the identifier and the token are read from the queue as it is then.
\<close>

definition send_popped :: "(Queue \<Rightarrow> Queue) \<Rightarrow> ptr outcome \<times> Queue \<Rightarrow> http_response outcome \<times> Queue" where
  "send_popped env r =
     (case r of
        (Return p, q) \<Rightarrow> (let q1 = env q in (Return (msg_reply (message (entry q1 p))), q1))
      | (Throw e, q) \<Rightarrow> (Throw e, q)
      | (Wait, q) \<Rightarrow> (Wait, q)
      | (Undefined, q) \<Rightarrow> (Undefined, q))"

definition PopRequest ::
  "(Queue \<Rightarrow> Queue) \<Rightarrow> timestamp \<Rightarrow> u64 \<Rightarrow> http_request \<Rightarrow> Queue \<Rightarrow> http_response outcome \<times> Queue"
where
  "PopRequest env now rnd a_request q =
     (if req_method a_request = ''POST'' then send_popped env (pop q now rnd)
      else (Return not_allowed, q))"

definition ack_args :: "eval_order \<Rightarrow> Object \<Rightarrow> (string \<times> string \<times> bool \<times> u64) outcome" where
  "ack_args ao obj =
     args4 ao (Object_getString obj ''id'') (Object_getString obj ''tok'')
       (case Object_has obj ''que'' of (found, obj1) \<Rightarrow> if found then Object_asBool obj1 else Return False)
       (bind_outcome
          (case Object_has obj ''del'' of (found, obj1) \<Rightarrow> if found then Object_asNumber obj1 else Return 0)
          cast_size_t)"

text \<open>The part that \<open>AckRequest\<close> and \<open>PopAckRequest\<close> share.\<close>

definition ack_call :: "eval_order \<Rightarrow> eval_order \<Rightarrow> timestamp \<Rightarrow> http_request \<Rightarrow> Queue \<Rightarrow> unit outcome \<times> Queue" where
  "ack_call ho ao now a_request q =
     (case bind_outcome (bind_outcome (fromString ho (readBody a_request)) Value_asObject) (ack_args ao) of
        Return (i, tok, que, del) \<Rightarrow> ack q i tok que del now
      | Throw e \<Rightarrow> (Throw e, q)
      | Wait \<Rightarrow> (Wait, q)
      | Undefined \<Rightarrow> (Undefined, q))"

definition AckRequest ::
  "eval_order \<Rightarrow> eval_order \<Rightarrow> timestamp \<Rightarrow> http_request \<Rightarrow> Queue \<Rightarrow> http_response outcome \<times> Queue"
where
  "AckRequest ho ao now a_request q =
     (if req_method a_request = ''POST'' then
        catching (case ack_call ho ao now a_request q of
          (r, q1) \<Rightarrow> (bind_outcome r (\<lambda>_. Return (sendResponse None HTTP_OK)), q1))
      else (Return not_allowed, q))"

definition PopAckRequest ::
  "eval_order \<Rightarrow> eval_order \<Rightarrow> (Queue \<Rightarrow> Queue) \<Rightarrow> (Queue \<Rightarrow> Queue) \<Rightarrow> timestamp \<Rightarrow> timestamp \<Rightarrow> u64 \<Rightarrow> http_request \<Rightarrow>
    Queue \<Rightarrow> http_response outcome \<times> Queue"
where
  "PopAckRequest ho ao env env' now now' rnd a_request q =
     (if req_method a_request = ''POST'' then
        catching (case ack_call ho ao now a_request q of
          (Return _, q1) \<Rightarrow> send_popped env' (pop (env q1) now' rnd)
        | (Throw e, q1) \<Rightarrow> (Throw e, q1)
        | (Wait, q1) \<Rightarrow> (Wait, q1)
        | (Undefined, q1) \<Rightarrow> (Undefined, q1))
      else (Return not_allowed, q))"

section \<open>Monitoring\<close>

definition CountRequest :: "http_request \<Rightarrow> Queue \<Rightarrow> http_response" where
  "CountRequest a_request q =
     (if req_method a_request = ''GET'' then
        (case getCounts q of (active, failed, free) \<Rightarrow>
           sendResponse (Some (''{'' @ quoted ''type'' @ '':'' @ quoted ''count'' @ '','' @ quoted ''capacity'' @ '':'' @
             to_string (unat (getCapacity q)) @ '','' @ quoted ''active'' @ '':'' @ to_string (unat active) @ '','' @
             quoted ''failed'' @ '':'' @ to_string (unat failed) @ '','' @ quoted ''free'' @ '':'' @
             to_string (unat free) @ ''}'')) HTTP_OK)
      else not_allowed)"

text \<open>The loop that writes a list of identifiers, with a comma before all but the first.\<close>

fun id_list_rest :: "string list \<Rightarrow> string" where
  "id_list_rest [] = []"
| "id_list_rest (i # is) = '','' @ quoted i @ id_list_rest is"

definition id_list :: "string list \<Rightarrow> string" where
  "id_list is = (case is of [] \<Rightarrow> [] | i # js \<Rightarrow> quoted i @ id_list_rest js)"

definition ids_reply :: "string \<Rightarrow> string list \<Rightarrow> http_response" where
  "ids_reply kind is =
     sendResponse (Some (''{'' @ quoted ''type'' @ '':'' @ quoted kind @ '','' @ quoted ''ids'' @ '':['' @ id_list is @ '']}''))
       HTTP_OK"

definition GetFailedRequest :: "http_request \<Rightarrow> Queue \<Rightarrow> http_response" where
  "GetFailedRequest a_request q =
     (if req_method a_request = ''GET'' then ids_reply ''failed'' (getFailed q) else not_allowed)"

fun strings_of :: "Value list \<Rightarrow> string list outcome" where
  "strings_of [] = Return []"
| "strings_of (v # vs) =
     bind_outcome (Value_asString v) (\<lambda>s. bind_outcome (strings_of vs) (\<lambda>ss. Return (s # ss)))"

definition EraseFailedRequest :: "eval_order \<Rightarrow> http_request \<Rightarrow> Queue \<Rightarrow> http_response outcome \<times> Queue" where
  "EraseFailedRequest ho a_request q =
     (if req_method a_request = ''POST'' then
        catching
          (case bind_outcome (bind_outcome (fromString ho (readBody a_request)) Value_asArray) strings_of of
             Return ids \<Rightarrow> (case eraseFailed q ids of (erased, q1) \<Rightarrow> (Return (ids_reply ''erased'' erased), q1))
           | Throw e \<Rightarrow> (Throw e, q)
           | Wait \<Rightarrow> (Wait, q)
           | Undefined \<Rightarrow> (Undefined, q))
      else (Return not_allowed, q))"

section \<open>Routing\<close>

datatype Endpoint_t =
    Route_ping | Route_push | Route_pop | Route_ack | Route_pop_ack | Route_count | Route_failed
  | Route_failed_erase

definition m_route_map :: "(string \<times> Endpoint_t) list" where
  "m_route_map =
     [(''/ping'', Route_ping), (''/push'', Route_push), (''/pop'', Route_pop), (''/ack'', Route_ack),
      (''/pop_ack'', Route_pop_ack), (''/count'', Route_count), (''/failed'', Route_failed),
      (''/failed/erase'', Route_failed_erase)]"

text \<open>What a handler gets from outside: clock readings, a random number, other threads.\<close>

record environment =
  hex_order :: eval_order
  arg_order :: eval_order
  push_clock :: "nat \<Rightarrow> timestamp \<times> timestamp"
  ack_now :: timestamp
  pop_now :: timestamp
  random_token :: u64
  others :: "Queue \<Rightarrow> Queue"
  others_reply :: "Queue \<Rightarrow> Queue"

definition handleRequest ::
  "(string \<Rightarrow> string) \<Rightarrow> environment \<Rightarrow> http_request \<Rightarrow> Queue \<Rightarrow> http_response outcome \<times> Queue"
where
  "handleRequest uri_path w a_request q =
     (case map_of m_route_map (uri_path (req_uri a_request)) of
        None \<Rightarrow> (Return (sendResponse None HTTP_NOT_FOUND), q)
      | Some Route_ping \<Rightarrow> (Return (PingRequest a_request), q)
      | Some Route_push \<Rightarrow> PushRequest (hex_order w) (arg_order w) (others w) (push_clock w) a_request q
      | Some Route_pop \<Rightarrow> PopRequest (others_reply w) (pop_now w) (random_token w) a_request q
      | Some Route_ack \<Rightarrow> AckRequest (hex_order w) (arg_order w) (ack_now w) a_request q
      | Some Route_pop_ack \<Rightarrow>
          PopAckRequest (hex_order w) (arg_order w) (others w) (others_reply w) (ack_now w) (pop_now w) (random_token w) a_request q
      | Some Route_count \<Rightarrow> (Return (CountRequest a_request q), q)
      | Some Route_failed \<Rightarrow> (Return (GetFailedRequest a_request q), q)
      | Some Route_failed_erase \<Rightarrow> EraseFailedRequest (hex_order w) a_request q)"

section \<open>Start-up\<close>

text \<open>
  The options of \<open>mqserver\<close> with their defaults. The port is read from the command line but the
  server socket is opened on 8080 whatever it is.
\<close>

record server_options =
  port :: "16 word"
  priority_count :: u8
  msg_capacity :: u64
  msg_ack_timeout_msec :: u64
  msg_max_retries :: u64
  msg_boost_timeout_msec :: u64
  monitor_period_msec :: u64

definition default_options :: server_options where
  "default_options =
     \<lparr> port = 8080, priority_count = 3, msg_capacity = 100, msg_ack_timeout_msec = 60000,
       msg_max_retries = 5, msg_boost_timeout_msec = 300000, monitor_period_msec = 5000 \<rparr>"

definition QueueServer_create :: "u8 \<Rightarrow> u64 \<Rightarrow> u64 \<Rightarrow> u64 \<Rightarrow> u64 \<Rightarrow> u64 \<Rightarrow> Queue \<times> 16 word" where
  "QueueServer_create a_priority_count a_msg_capacity a_msg_ack_timeout_msec a_msg_max_retries
     a_msg_boost_timeout_msec a_monitor_period_msec =
     (setErrorCallback True
       (Queue_create a_priority_count a_msg_capacity a_msg_ack_timeout_msec a_msg_max_retries
         a_msg_boost_timeout_msec a_monitor_period_msec False), 8080)"

definition mqserver_main :: "server_options \<Rightarrow> Queue \<times> 16 word" where
  "mqserver_main opts =
     QueueServer_create (priority_count opts) (msg_capacity opts) (msg_ack_timeout_msec opts)
       (msg_max_retries opts) (msg_boost_timeout_msec opts) (monitor_period_msec opts)"

end
