(* ===== verification/Client_Model.thy ===== *)
theory Client_Model
  imports Server_Model
begin

text \<open>
  The test client \<open>server/mqclient.cpp\<close>: how it builds requests and reads replies. The HTTP
  session of Poco is outside the repository; it is the parameter \<open>send\<close>, which takes a request
  and the state of the other side to a response and the new state.
\<close>

section \<open>Sending a request\<close>

type_synonym 's session = "http_request \<Rightarrow> 's \<Rightarrow> http_response outcome \<times> 's"

definition status_code :: "HTTPStatus \<Rightarrow> nat" where
  "status_code s =
     (case s of HTTP_OK \<Rightarrow> 200 | HTTP_BAD_REQUEST \<Rightarrow> 400 | HTTP_NOT_FOUND \<Rightarrow> 404
      | HTTP_METHOD_NOT_ALLOWED \<Rightarrow> 405)"

definition client_request :: "string \<Rightarrow> string \<Rightarrow> string option \<Rightarrow> http_request" where
  "client_request meth uri body =
     (let b = (case body of Some s \<Rightarrow> s | None \<Rightarrow> []) in
      \<lparr> req_method = meth, req_uri = uri, req_length = int (length b), req_stream = b \<rparr>)"

text \<open>What \<open>doRequest\<close> makes of a response; \<open>reply\<close> is the document it overwrites.\<close>

definition read_reply :: "eval_order \<Rightarrow> Value \<Rightarrow> http_response \<Rightarrow> Value outcome" where
  "read_reply ho reply response =
     (if resp_body response \<noteq> [] then
        (if resp_status response \<noteq> HTTP_OK
         then Throw (runtime_error (''Request failed: '' @ resp_body response))
         else fromString ho (resp_body response))
      else
        (if resp_status response \<noteq> HTTP_OK
         then Throw (runtime_error (''Request failed: '' @ to_string (status_code (resp_status response))))
         else Return (Value_clear reply)))"

definition doRequest ::
  "eval_order \<Rightarrow> 's session \<Rightarrow> http_request \<Rightarrow> Value \<Rightarrow> 's \<Rightarrow> Value outcome \<times> 's" where
  "doRequest ho send request reply s =
     (case send request s of (r, s1) \<Rightarrow> (bind_outcome r (read_reply ho reply), s1))"

section \<open>Publishing\<close>

text \<open>The loop that builds the body, from index \<open>i\<close> with \<open>k\<close> more messages.\<close>

fun push_body_loop :: "u64 \<Rightarrow> nat \<Rightarrow> nat \<Rightarrow> string" where
  "push_body_loop offset i 0 = []"
| "push_body_loop offset i (Suc k) =
     (if i > 0 then '','' else []) @
     ''{'' @ quoted ''id'' @ '':'' @ quoted (to_string (unat (offset + word_of_nat i))) @ '','' @
     quoted ''pri'' @ '':0}'' @ push_body_loop offset (i + 1) k"

definition push_body :: "u64 \<Rightarrow> nat \<Rightarrow> string" where
  "push_body offset a_count = ''['' @ push_body_loop offset 0 a_count @ '']''"

definition doPush :: "eval_order \<Rightarrow> 's session \<Rightarrow> u64 \<Rightarrow> nat \<Rightarrow> 's \<Rightarrow> unit outcome \<times> 's" where
  "doPush ho send offset a_count s =
     (case doRequest ho send (client_request ''POST'' ''/push'' (Some (push_body offset a_count))) VT_NULL s of
        (r, s1) \<Rightarrow> (returns r, s1))"

section \<open>Consuming\<close>

definition ack_body :: "string \<Rightarrow> string \<Rightarrow> string" where
  "ack_body mid tok =
     ''{'' @ quoted ''id'' @ '':'' @ CHR 0x22 # mid @ CHR 0x22 # '','' @ quoted ''tok'' @ '':'' @
     CHR 0x22 # tok @ CHR 0x22 # ''}''"

text \<open>
  \<open>std::stoi\<close>: optional white space and sign, then decimal digits; the rest is ignored.
\<close>

definition stoi :: "string \<Rightarrow> int outcome" where
  "stoi str =
     (let t = dropWhile is_space str;
          neg = (t \<noteq> [] \<and> hd t = CHR ''-'');
          u = (if t \<noteq> [] \<and> (hd t = CHR ''-'' \<or> hd t = CHR ''+'') then tl t else t);
          ds = takeWhile is_digit u;
          n = (if neg then - int (decimal_value ds) else int (decimal_value ds))
      in if ds = [] then Throw (invalid_argument ''stoi'')
         else if n < - (2 ^ 31) \<or> n \<ge> 2 ^ 31 then Throw (out_of_range ''stoi'')
         else Return n)"

text \<open>Reading a message from a reply, with the test that its number is in range.\<close>

definition read_message :: "u64 \<Rightarrow> u64 \<Rightarrow> Value \<Rightarrow> (string \<times> string) outcome" where
  "read_message offset a_count reply =
     bind_outcome (Value_asObject reply) (\<lambda>obj.
     bind_outcome (Object_getString obj ''id'') (\<lambda>mid.
     bind_outcome (Object_getString obj ''tok'') (\<lambda>tok.
     bind_outcome (stoi mid) (\<lambda>n.
       let id_int = (word_of_int n :: u64) in
       if id_int < offset \<or> id_int \<ge> offset + a_count
       then Throw (runtime_error ''Message ID received is out of expected range'')
       else Return (mid, tok)))))"

text \<open>
  The loop of \<open>doPop\<close>, with \<open>k\<close> more rounds: the first round sends \<open>/pop\<close>, every other one
  acknowledges the message before it with \<open>/pop_ack\<close>. \<open>msg\<close> is the message in hand.
\<close>

fun pop_loop ::
  "eval_order \<Rightarrow> 's session \<Rightarrow> u64 \<Rightarrow> u64 \<Rightarrow> nat \<Rightarrow> (string \<times> string) option \<Rightarrow> Value \<Rightarrow> 's \<Rightarrow>
    (string \<times> string) outcome \<times> Value \<times> 's"
where
  "pop_loop ho send offset a_count 0 msg reply s =
     (Return (case msg of Some m \<Rightarrow> m | None \<Rightarrow> ([], [])), reply, s)"
| "pop_loop ho send offset a_count (Suc k) msg reply s =
     (let request = (case msg of
            None \<Rightarrow> client_request ''POST'' ''/pop'' None
          | Some (mid, tok) \<Rightarrow> client_request ''POST'' ''/pop_ack'' (Some (ack_body mid tok)))
      in case doRequest ho send request reply s of
           (Return v, s1) \<Rightarrow>
             (case read_message offset a_count v of
                Return m \<Rightarrow> pop_loop ho send offset a_count k (Some m) v s1
              | Throw e \<Rightarrow> (Throw e, v, s1)
              | Wait \<Rightarrow> (Wait, v, s1)
              | Undefined \<Rightarrow> (Undefined, v, s1))
         | (Throw e, s1) \<Rightarrow> (Throw e, reply, s1)
         | (Wait, s1) \<Rightarrow> (Wait, reply, s1)
         | (Undefined, s1) \<Rightarrow> (Undefined, reply, s1))"

definition doPop :: "eval_order \<Rightarrow> 's session \<Rightarrow> u64 \<Rightarrow> nat \<Rightarrow> 's \<Rightarrow> unit outcome \<times> 's" where
  "doPop ho send offset a_count s =
     (case pop_loop ho send offset (word_of_nat a_count) a_count None VT_NULL s of
        (Return (mid, tok), v, s1) \<Rightarrow>
          (case doRequest ho send (client_request ''POST'' ''/ack'' (Some (ack_body mid tok))) v s1 of
             (r, s2) \<Rightarrow> (returns r, s2))
      | (Throw e, _, s1) \<Rightarrow> (Throw e, s1)
      | (Wait, _, s1) \<Rightarrow> (Wait, s1)
      | (Undefined, _, s1) \<Rightarrow> (Undefined, s1))"

section \<open>Monitoring\<close>

definition doGetFailed :: "eval_order \<Rightarrow> 's session \<Rightarrow> 's \<Rightarrow> string list outcome \<times> 's" where
  "doGetFailed ho send s =
     (case doRequest ho send (client_request ''GET'' ''/failed'' None) VT_NULL s of
        (r, s1) \<Rightarrow>
          (bind_outcome r (\<lambda>reply. bind_outcome (Value_asObject reply) (\<lambda>obj.
             bind_outcome (Object_getArray obj ''ids'') strings_of)), s1))"

definition erase_body :: "string list \<Rightarrow> string" where
  "erase_body ids = ''['' @ concat (map quoted ids) @ '']''"

definition doEraseFailed :: "eval_order \<Rightarrow> 's session \<Rightarrow> string list \<Rightarrow> 's \<Rightarrow> unit outcome \<times> 's" where
  "doEraseFailed ho send ids s =
     (case doRequest ho send (client_request ''POST'' ''/failed/erase'' (Some (erase_body ids))) VT_NULL s of
        (r, s1) \<Rightarrow> (returns r, s1))"

text \<open>Comparison of two finite doubles; the two zeros are equal.\<close>

definition dbl_equal :: "double \<Rightarrow> double \<Rightarrow> bool" where
  "dbl_equal x y \<longleftrightarrow> (x = y \<and> \<not> (\<not> dbl_finite x \<and> dbl_fraction x \<noteq> 0)) \<or> (\<not> cast_bool x \<and> \<not> cast_bool y)"

text \<open>One field of the counts: present, a number, and with the expected value if there is one.\<close>

definition check_count_field :: "string \<Rightarrow> u64 option \<Rightarrow> Object \<Rightarrow> unit outcome" where
  "check_count_field key expected obj =
     (case Object_has obj key of (found, obj1) \<Rightarrow>
        if \<not> found then Throw (runtime_error (''Response missing '' @ [CHR 0x27] @ key @ [CHR 0x27] @ '' field''))
        else bind_outcome (Object_type obj1) (\<lambda>ty.
          if ty \<noteq> Type_NUMBER then Throw (runtime_error ([CHR 0x27] @ key @ [CHR 0x27] @ '' has wrong type''))
          else (case expected of
            None \<Rightarrow> Return ()
          | Some n \<Rightarrow> bind_outcome (Object_asNumber obj1) (\<lambda>d.
              if \<not> dbl_equal d (dbl_of_size n)
              then Throw (runtime_error ([CHR 0x27] @ key @ [CHR 0x27] @ '' has wrong value''))
              else Return ()))))"

definition check_counts :: "u64 \<Rightarrow> u64 \<Rightarrow> Value \<Rightarrow> unit outcome" where
  "check_counts active failed reply =
     bind_outcome (Value_asObject reply) (\<lambda>obj.
     case Object_has obj ''type'' of (found, obj1) \<Rightarrow>
       if \<not> found then Throw (runtime_error (''Response missing '' @ [CHR 0x27] @ ''type'' @ [CHR 0x27] @ '' field''))
       else bind_outcome (Object_asString obj1) (\<lambda>ty.
         if ty \<noteq> ''count''
         then Throw (runtime_error (''Response has wrong '' @ [CHR 0x27] @ ''type'' @ [CHR 0x27] @ '' value''))
         else bind_outcome (check_count_field ''capacity'' None obj) (\<lambda>_.
              bind_outcome (check_count_field ''active'' (Some active) obj) (\<lambda>_.
              bind_outcome (check_count_field ''failed'' (Some failed) obj) (\<lambda>_.
              check_count_field ''free'' None obj)))))"

text \<open>The exit codes of the tests: 0 for success, 1 when an exception was caught.\<close>

definition exit_code :: "unit outcome \<Rightarrow> nat outcome" where
  "exit_code r = (case r of Return _ \<Rightarrow> Return 0 | Throw _ \<Rightarrow> Return 1 | Wait \<Rightarrow> Wait | Undefined \<Rightarrow> Undefined)"

definition testCount :: "eval_order \<Rightarrow> 's session \<Rightarrow> u64 \<Rightarrow> u64 \<Rightarrow> 's \<Rightarrow> nat outcome \<times> 's" where
  "testCount ho send active failed s =
     (case doRequest ho send (client_request ''GET'' ''/count'' None) VT_NULL s of
        (r, s1) \<Rightarrow> (exit_code (bind_outcome r (check_counts active failed)), s1))"

definition testPush :: "eval_order \<Rightarrow> 's session \<Rightarrow> u64 \<Rightarrow> nat \<Rightarrow> 's \<Rightarrow> nat outcome \<times> 's" where
  "testPush ho send offset a_count s = (case doPush ho send offset a_count s of (r, s1) \<Rightarrow> (exit_code r, s1))"

definition testPop :: "eval_order \<Rightarrow> 's session \<Rightarrow> u64 \<Rightarrow> nat \<Rightarrow> 's \<Rightarrow> nat outcome \<times> 's" where
  "testPop ho send offset a_count s = (case doPop ho send offset a_count s of (r, s1) \<Rightarrow> (exit_code r, s1))"

end
