(* ===== verification/Server_Lemmas.thy ===== *)
theory Server_Lemmas
  imports Client_Model Queue_Failed
begin

text \<open>
  The documents that the server and its clients exchange, as texts of known values, and the
  effect of each handler on a request with such a document.
\<close>

section \<open>Bodies\<close>

lemma readBody_client [simp]: "readBody (client_request meth uri (Some b)) = b"
  by (simp add: readBody_def client_request_def Let_def)

lemma req_method_client [simp]: "req_method (client_request meth uri b) = meth"
  by (simp add: client_request_def Let_def)

lemma req_uri_client [simp]: "req_uri (client_request meth uri b) = uri"
  by (simp add: client_request_def Let_def)

definition no_NUL :: "string \<Rightarrow> bool" where
  "no_NUL s \<longleftrightarrow> (\<forall>c \<in> set s. c \<noteq> CHR 0x00)"

lemma no_NUL_simps [simp]:
  "no_NUL []" "no_NUL (c # s) \<longleftrightarrow> c \<noteq> CHR 0x00 \<and> no_NUL s" "no_NUL (s @ t) \<longleftrightarrow> no_NUL s \<and> no_NUL t"
  by (auto simp: no_NUL_def)

lemma no_NUL_plain [simp]: "plain s \<Longrightarrow> no_NUL s"
  using plain_no_NUL[of s] by (auto simp: no_NUL_def)

lemma no_NUL_quoted [simp]: "no_NUL (quoted s) \<longleftrightarrow> no_NUL s"
  by (simp add: quoted_def)

lemma no_NUL_commas: "(\<forall>t \<in> set ts. no_NUL t) \<Longrightarrow> no_NUL (commas ts)"
  by (cases ts) (auto simp: no_NUL_def)

lemma fromString_text: "document_parses ho s v \<Longrightarrow> no_NUL s \<Longrightarrow> fromString ho s = Return v"
proof -
  assume d: "document_parses ho s v" and "no_NUL s"
  then have "c_str s = s" unfolding no_NUL_def by (intro c_str_id) blast
  with d show ?thesis by (intro fromString_document) simp
qed

text \<open>Members whose values are strings or unsigned numbers.\<close>

definition str_member :: "string \<Rightarrow> string \<Rightarrow> json_member" where
  "str_member k s = (k, quoted s, VT_STRING s)"

definition num_member :: "string \<Rightarrow> nat \<Rightarrow> json_member" where
  "num_member k n = (k, to_string n, VT_NUMBER (dbl_of_ratio (int n) 1))"

definition plain_key :: "string \<Rightarrow> bool" where
  "plain_key k \<longleftrightarrow> plain k \<and> k \<noteq> []"

lemma member_ok_simps [simp]:
  "plain_key k \<Longrightarrow> plain s \<Longrightarrow> member_ok ho (str_member k s)"
  "plain_key k \<Longrightarrow> member_ok ho (num_member k n)"
  by (simp_all add: member_ok_def str_member_def num_member_def plain_key_def quoted_text number_text)

lemma plain_letters [simp]:
  "plain_char CHR ''a''" "plain_char CHR ''b''" "plain_char CHR ''c''" "plain_char CHR ''d''" "plain_char CHR ''e''"
  "plain_char CHR ''f''" "plain_char CHR ''g''" "plain_char CHR ''h''" "plain_char CHR ''i''" "plain_char CHR ''j''"
  "plain_char CHR ''k''" "plain_char CHR ''l''" "plain_char CHR ''m''" "plain_char CHR ''n''" "plain_char CHR ''o''"
  "plain_char CHR ''p''" "plain_char CHR ''q''" "plain_char CHR ''r''" "plain_char CHR ''s''" "plain_char CHR ''t''"
  "plain_char CHR ''u''" "plain_char CHR ''v''" "plain_char CHR ''w''" "plain_char CHR ''x''" "plain_char CHR ''y''"
  "plain_char CHR ''z''" "plain_char CHR '' ''"
  by (simp_all add: plain_char_def)

lemma plain_keys [simp]:
  "plain_key ''id''" "plain_key ''pri''" "plain_key ''del''" "plain_key ''tok''" "plain_key ''type''" "plain_key ''ids''"
  "plain_key ''capacity''" "plain_key ''active''" "plain_key ''failed''" "plain_key ''free''" "plain_key ''message''"
  by (simp_all add: plain_key_def)

lemma no_NUL_member [simp]:
  "plain_key k \<Longrightarrow> no_NUL s \<Longrightarrow> no_NUL (member_text (str_member k s))"
  "plain_key k \<Longrightarrow> no_NUL (member_text (num_member k n))"
  by (simp_all add: member_text_def str_member_def num_member_def plain_key_def)

lemma no_NUL_object [simp]: "(\<forall>m \<in> set ms. no_NUL (member_text m)) \<Longrightarrow> no_NUL (object_text ms)"
  by (simp add: object_text_def no_NUL_commas)

lemma fromString_object:
  "(\<forall>e \<in> set ms. member_ok ho e) \<Longrightarrow> (\<forall>e \<in> set ms. no_NUL (member_text e)) \<Longrightarrow>
     fromString ho (object_text ms) = Return (object_of ms)"
  by (intro fromString_text object_document) auto

section \<open>The request of \<open>doPush\<close>\<close>

definition push_item :: "string \<Rightarrow> json_member list" where
  "push_item i = [str_member ''id'' i, num_member ''pri'' 0]"

definition push_ids :: "u64 \<Rightarrow> nat \<Rightarrow> string list" where
  "push_ids offset k = map (\<lambda>j. to_string (unat (offset + word_of_nat j))) [0..<k]"

lemma push_item_text: "object_text (push_item i) = ''{'' @ quoted ''id'' @ '':'' @ quoted i @ '','' @ quoted ''pri'' @ '':0}''"
proof -
  have "to_string 0 = ''0''" by code_simp
  then show ?thesis by (simp add: object_text_def push_item_def member_text_def str_member_def num_member_def)
qed

lemma push_body_loop_text:
  "push_body_loop offset i k = (if i > 0 then concat (map (\<lambda>j. '','' @ object_text (push_item (to_string (unat (offset + word_of_nat j))))) [i..<i + k])
     else commas (map (\<lambda>j. object_text (push_item (to_string (unat (offset + word_of_nat j))))) [i..<i + k]))"
proof (induction k arbitrary: i)
  case (Suc k)
  have u: "[i..<i + Suc k] = i # [Suc i..<Suc i + k]" by (simp add: upt_conv_Cons)
  show ?case unfolding push_body_loop.simps u using Suc[of "i + 1"]
    by (simp add: push_item_text o_def)
qed simp

lemma push_body_text: "push_body offset k = ''['' @ commas (map (object_text \<circ> push_item) (push_ids offset k)) @ '']''"
  by (simp add: push_body_def push_body_loop_text push_ids_def o_def)

text \<open>What an element of the array becomes.\<close>

definition push_object :: "string \<Rightarrow> Object" where
  "push_object i = Object [(''id'', VT_STRING i), (''pri'', VT_NUMBER 0)] It_end"

lemma dbl_zero [simp]: "dbl_of_ratio 0 1 = 0"
  by (simp add: dbl_of_ratio_def)

lemma push_item_value: "object_of (push_item i) = VT_OBJECT (push_object i)"
  by (simp add: object_of_def push_item_def put_member_def str_member_def num_member_def push_object_def)

lemma fromString_push_body:
  "fromString ho (push_body offset k) = Return (VT_ARRAY (map (\<lambda>i. VT_OBJECT (push_object i)) (push_ids offset k)))"
proof -
  have pl: "plain i" if "i \<in> set (push_ids offset k)" for i using that by (auto simp: push_ids_def)
  let ?mss = "map push_item (push_ids offset k)"
  have ok: "\<forall>ms \<in> set ?mss. \<forall>e \<in> set ms. member_ok ho e" using pl by (auto simp: push_item_def)
  have "no_NUL (object_text (push_item i))" if "plain i" for i
    using that by (auto simp: push_item_def intro!: no_NUL_object)
  then have "no_NUL (push_body offset k)"
    using pl unfolding push_body_text by (auto simp: o_def intro!: no_NUL_commas)
  moreover have "document_parses ho (push_body offset k) (VT_ARRAY (map object_of ?mss))"
    using objects.array_document[OF ok] by (simp add: push_body_text o_def)
  ultimately have "fromString ho (push_body offset k) = Return (VT_ARRAY (map object_of ?mss))"
    by (intro fromString_text)
  then show ?thesis by (simp add: push_item_value o_def)
qed

lemma args3_Return [simp]: "args3 ao (Return a) (Return b) (Return c) = Return (a, b, c)"
proof -
  have "eval_args ao (\<lambda>k. if k = 0 then returns (Return a) else if k = 1 then returns (Return b) else returns (Return c)) = Return ()"
    by (induction ao) (simp_all add: returns_def)
  then show ?thesis by (simp add: args3_def)
qed

lemma args4_Return [simp]: "args4 ao (Return a) (Return b) (Return c) (Return d) = Return (a, b, c, d)"
proof -
  have "eval_args ao (\<lambda>k. if k = 0 then returns (Return a) else if k = 1 then returns (Return b)
      else if k = 2 then returns (Return c) else returns (Return d)) = Return ()"
    by (induction ao) (simp_all add: returns_def)
  then show ?thesis by (simp add: args4_def)
qed

lemma cast_zero [simp]: "cast_u8 0 = Return 0" "cast_size_t 0 = Return 0"
  using cast_exact[of 0] by simp_all

lemma has_map [simp]: "m_map (snd (Object_has obj k)) = m_map obj"
  by (simp add: Object_has_def split: option.split)

lemma has_found: "fst (Object_has obj k) \<longleftrightarrow> map_find (m_map obj) k \<noteq> None"
  by (simp add: Object_has_def split: option.split)

lemma push_args_plain:
  assumes "m_map msg = m_map (push_object i)"
  shows "push_args ao m msg = Return (i, 0, 0)"
proof -
  have "Object_getString msg ''id'' = Return i" "Object_getNumber msg ''pri'' = Return 0" "\<not> fst (Object_has msg ''del'')"
    using assms
    by (simp_all add: Object_getString_def Object_getNumber_def has_found push_object_def map_find_def read_string_def
        read_number_def)
  then show ?thesis by (simp add: push_args_def)
qed

text \<open>The room that \<open>getCounts\<close> reports.\<close>

lemma free_zero_iff: "queue_ok q \<Longrightarrow> snd (snd (getCounts q)) = 0 \<longleftrightarrow> length (m_msg_map q) = unat (m_capacity q)"
proof -
  assume ok: "queue_ok q"
  have "m_capacity q - word_of_nat (length (m_msg_map q)) = 0 \<longleftrightarrow> word_of_nat (length (m_msg_map q)) = m_capacity q"
    by auto
  also have "\<dots> \<longleftrightarrow> length (m_msg_map q) = unat (m_capacity q)"
    using unat_of_nat_le[OF wf_size[OF ok]] by (metis word_unat_eq_iff)
  finally show ?thesis by (simp add: getCounts_def)
qed

lemma push_loop_pushes:
  "queue_ok q \<Longrightarrow> all_accepted 0 clock n ids q \<Longrightarrow>
     push_loop ao (\<lambda>q. q) clock n (map (\<lambda>i. VT_OBJECT (push_object i)) ids) q = (Return (), [], pushes 0 clock n ids q)"
proof (induction ids arbitrary: n q)
  case (Cons i ids)
  obtain r q1 where p: "push q i 0 0 (fst (clock n)) (snd (clock n)) = (r, q1)" by fastforce
  have acc: "r = Return ()" and rest: "all_accepted 0 clock (n + 1) ids q1"
    using Cons.prems(2) by (simp_all add: p)
  have "snd (snd (getCounts q)) \<noteq> 0"
    using free_zero_iff[OF Cons.prems(1)] push_accept_iff[OF Cons.prems(1), of i 0 0 "fst (clock n)" "snd (clock n)"] acc p
    by simp
  moreover have "push_args ao m (snd (Object_has (snd (Object_has (snd (Object_has (push_object i) ''id'')) ''pri'')) ''del''))
      = Return (i, 0, 0)" for m
    by (rule push_args_plain) simp
  moreover have "queue_ok q1"
    using queue_ok_push[OF Cons.prems(1), of i 0 0 "fst (clock n)" "snd (clock n)"] p by simp
  ultimately show ?case
    using Cons.IH[OF _ rest] by (simp add: Value_asObject_def read_object_def Let_def p acc)
qed simp

lemma PushRequest_accepts:
  assumes "queue_ok q" and "all_accepted 0 clock 0 (push_ids offset k) q"
  shows "PushRequest ho ao (\<lambda>q. q) clock (client_request ''POST'' uri (Some (push_body offset k))) q
    = (Return (sendResponse None HTTP_OK), pushes 0 clock 0 (push_ids offset k) q)"
  by (simp add: PushRequest_def fromString_push_body Value_asArray_def read_array_def catching_def
      push_loop_pushes[OF assms])

section \<open>Acknowledgements\<close>

lemma ack_body_text: "ack_body i tok = object_text [str_member ''id'' i, str_member ''tok'' tok]"
  by (simp add: ack_body_def object_text_def member_text_def str_member_def quoted_def)

definition ack_object :: "string \<Rightarrow> string \<Rightarrow> Object" where
  "ack_object i tok = Object [(''id'', VT_STRING i), (''tok'', VT_STRING tok)] It_end"

lemma fromString_ack_body:
  assumes "plain i" and "plain tok"
  shows "fromString ho (ack_body i tok) = Return (VT_OBJECT (ack_object i tok))"
proof -
  have "object_of [str_member ''id'' i, str_member ''tok'' tok] = VT_OBJECT (ack_object i tok)"
    by (simp add: object_of_def put_member_def str_member_def ack_object_def)
  moreover have "fromString ho (ack_body i tok) = Return (object_of [str_member ''id'' i, str_member ''tok'' tok])"
    unfolding ack_body_text using assms by (intro fromString_object) auto
  ultimately show ?thesis by simp
qed

lemma ack_args_plain: "ack_args ao (ack_object i tok) = Return (i, tok, False, 0)"
  by (simp add: ack_args_def ack_object_def Object_getString_def Object_has_def map_find_def read_string_def)

lemma ack_call_plain:
  assumes "plain i" and "plain tok"
  shows "ack_call ho ao now (client_request ''POST'' uri (Some (ack_body i tok))) q = ack q i tok False 0 now"
  by (simp add: ack_call_def fromString_ack_body[OF assms] Value_asObject_def read_object_def ack_args_plain)

section \<open>Replies\<close>

lemma msg_reply_text:
  "resp_body (msg_reply m) = object_text [str_member ''type'' ''msg'', str_member ''id'' (msg_id m), str_member ''tok'' (msg_token m)]"
  by (simp add: msg_reply_def sendResponse_def object_text_def member_text_def str_member_def quoted_def)

definition msg_object :: "Msg_t \<Rightarrow> Object" where
  "msg_object m = Object [(''id'', VT_STRING (msg_id m)), (''tok'', VT_STRING (msg_token m)), (''type'', VT_STRING ''msg'')] It_end"

lemma fromString_msg_reply:
  assumes "plain (msg_id m)" and "plain (msg_token m)"
  shows "fromString ho (resp_body (msg_reply m)) = Return (VT_OBJECT (msg_object m))"
proof -
  let ?ms = "[str_member ''type'' ''msg'', str_member ''id'' (msg_id m), str_member ''tok'' (msg_token m)]"
  have "object_of ?ms = VT_OBJECT (msg_object m)"
    by (simp add: object_of_def put_member_def str_member_def msg_object_def)
  moreover have "fromString ho (resp_body (msg_reply m)) = Return (object_of ?ms)"
    unfolding msg_reply_text using assms by (intro fromString_object) auto
  ultimately show ?thesis by simp
qed

lemma resp_status_msg [simp]: "resp_status (msg_reply m) = HTTP_OK"
  by (simp add: msg_reply_def sendResponse_def)

lemma resp_body_msg [simp]: "resp_body (msg_reply m) \<noteq> []"
  by (simp add: msg_reply_def sendResponse_def)

lemma msg_object_get [simp]:
  "Object_getString (msg_object m) ''id'' = Return (msg_id m)"
  "Object_getString (msg_object m) ''tok'' = Return (msg_token m)"
  by (simp_all add: msg_object_def Object_getString_def map_find_def read_string_def)

lemma CountRequest_text:
  "getCounts q = (active, failed, free) \<Longrightarrow> req_method r = ''GET'' \<Longrightarrow>
     CountRequest r q = sendResponse (Some (object_text [str_member ''type'' ''count'',
       num_member ''capacity'' (unat (getCapacity q)), num_member ''active'' (unat active),
       num_member ''failed'' (unat failed), num_member ''free'' (unat free)])) HTTP_OK"
  by (simp add: CountRequest_def object_text_def member_text_def str_member_def num_member_def)

lemma id_list_commas: "id_list is = commas (map quoted is)"
proof -
  have "id_list_rest is = concat (map (\<lambda>u. '','' @ u) (map quoted is))" for "is"
    by (induction "is") simp_all
  then show ?thesis by (cases "is") (simp_all add: id_list_def comp_def)
qed

definition ids_member :: "string list \<Rightarrow> json_member" where
  "ids_member is = (''ids'', ''['' @ commas (map quoted is) @ '']'', VT_ARRAY (map VT_STRING is))"

lemma ids_reply_text:
  "resp_body (ids_reply kind is) = object_text [str_member ''type'' kind, ids_member is]"
  by (simp add: ids_reply_def sendResponse_def object_text_def member_text_def str_member_def ids_member_def id_list_commas)

lemma ids_member_ok: "\<forall>i \<in> set is. plain i \<Longrightarrow> member_ok ho (ids_member is)"
  using strings.array_text[of "is" ho] by (simp add: member_ok_def ids_member_def plain_char_def)

definition ids_object :: "string \<Rightarrow> string list \<Rightarrow> Object" where
  "ids_object kind is = Object [(''ids'', VT_ARRAY (map VT_STRING is)), (''type'', VT_STRING kind)] It_end"

lemma fromString_ids_reply:
  assumes "plain kind" and "\<forall>i \<in> set is. plain i"
  shows "fromString ho (resp_body (ids_reply kind is)) = Return (VT_OBJECT (ids_object kind is))"
proof -
  let ?ms = "[str_member ''type'' kind, ids_member is]"
  have "object_of ?ms = VT_OBJECT (ids_object kind is)"
    by (simp add: object_of_def put_member_def str_member_def ids_member_def ids_object_def)
  moreover have "no_NUL (member_text (ids_member is))"
    using assms(2) by (auto simp: member_text_def ids_member_def intro!: no_NUL_commas)
  then have "fromString ho (resp_body (ids_reply kind is)) = Return (object_of ?ms)"
    unfolding ids_reply_text using assms by (intro fromString_object) (auto simp: ids_member_ok)
  ultimately show ?thesis by simp
qed

lemma strings_of_map [simp]: "strings_of (map VT_STRING ss) = Return ss"
  by (induction ss) (simp_all add: Value_asString_def read_string_def)

end
