(* ===== verification/Client_Lemmas.thy ===== *)
theory Client_Lemmas
  imports Server_Lemmas
begin

text \<open>
  The client talking to the server: the session in which every request is answered by the
  handler, and the state of the queue after the client's loops.
\<close>

section \<open>The session\<close>

text \<open>
  Requests are answered one after the other by \<open>handleRequest\<close>; the counter numbers them and
  selects what the n-th one gets from outside.
\<close>

definition served :: "(string \<Rightarrow> string) \<Rightarrow> (nat \<Rightarrow> environment) \<Rightarrow> (nat \<times> Queue) session" where
  "served uri_path w request s =
     (case handleRequest uri_path (w (fst s)) request (snd s) of (r, q1) \<Rightarrow> (r, (fst s + 1, q1)))"

text \<open>The path of a URI that consists of a path is the URI itself.\<close>

definition path_of_path :: "(string \<Rightarrow> string) \<Rightarrow> bool" where
  "path_of_path uri_path \<longleftrightarrow> (\<forall>u \<in> fst ` set m_route_map. uri_path u = u)"

text \<open>No other thread touches the queue while the client runs.\<close>

definition alone :: "(nat \<Rightarrow> environment) \<Rightarrow> bool" where
  "alone w \<longleftrightarrow> (\<forall>n q. others (w n) q = q \<and> others_reply (w n) q = q)"

lemma routes:
  assumes "path_of_path uri_path"
  shows "map_of m_route_map (uri_path ''/push'') = Some Route_push"
    "map_of m_route_map (uri_path ''/pop'') = Some Route_pop"
    "map_of m_route_map (uri_path ''/ack'') = Some Route_ack"
    "map_of m_route_map (uri_path ''/pop_ack'') = Some Route_pop_ack"
    "map_of m_route_map (uri_path ''/count'') = Some Route_count"
    "map_of m_route_map (uri_path ''/failed'') = Some Route_failed"
    "map_of m_route_map (uri_path ''/failed/erase'') = Some Route_failed_erase"
  using assms by (simp_all add: path_of_path_def m_route_map_def)

lemma alone_id: "alone w \<Longrightarrow> others (w n) = (\<lambda>q. q)" "alone w \<Longrightarrow> others_reply (w n) = (\<lambda>q. q)"
  by (auto simp: alone_def)

section \<open>Messages in hand\<close>

definition holding :: "Queue \<Rightarrow> string \<Rightarrow> string \<Rightarrow> bool" where
  "holding q i tok \<longleftrightarrow> (\<exists>p. map_find (m_msg_map q) i = Some p \<and> state (entry q p) = MSG_RUNNING \<and>
     msg_token (message (entry q p)) = tok)"

lemma pop_holding:
  assumes ok: "queue_ok q" and ne: "concat (lane_ids q) = i # is"
  shows "\<exists>p q1. pop q now rnd = (Return p, q1) \<and>
    message (entry q1 p) = \<lparr> msg_id = i, msg_token = to_string (unat rnd) \<rparr> \<and>
    holding q1 i (to_string (unat rnd)) \<and> concat (lane_ids q1) = is \<and> m_msg_map q1 = m_msg_map q \<and> queue_ok q1"
proof -
  have cq: "m_count_queued q \<noteq> 0" using lane_ids_empty[OF ok] ne by auto
  from pop_available[OF ok this] obtain p qs where pf: "pop_first (m_queue_list q) = Some (p, qs)" by blast
  note live = pop_first_live(1)[OF ok pf]
  have lt: "p < length (m_heap q)" using wf_live_heap[OF ok live] .
  obtain q1 where q1: "popImpl q now rnd = (Return p, q1)" and
      eq: "q1 = (set_entry p ((entry q p)\<lparr> state := MSG_RUNNING, state_ts := now,
        message := (message (entry q p))\<lparr> msg_token := to_string (unat rnd) \<rparr> \<rparr>) q)
      \<lparr> m_queue_list := qs, m_count_queued := m_count_queued q - 1 \<rparr>"
    using popImpl_nonempty[OF pf cq] by simp
  have e: "state (entry q1 p) = MSG_RUNNING" "msg_token (message (entry q1 p)) = to_string (unat rnd)"
    "msg_id (message (entry q1 p)) = msg_id (message (entry q p))" and m: "m_msg_map q1 = m_msg_map q"
    using lt by (simp_all add: eq entry_set_entry)
  have lanes: "i # is = msg_id (message (entry q1 p)) # concat (lane_ids q1)"
    using pop_lane[OF ok q1] ne by simp
  then have i: "msg_id (message (entry q1 p)) = i" by simp
  then have "map_find (m_msg_map q1) i = Some p" using live_find[OF ok live] e(3) by (simp add: m)
  then have "holding q1 i (to_string (unat rnd))" using e by (auto simp: holding_def)
  moreover have "message (entry q1 p) = \<lparr> msg_id = i, msg_token = to_string (unat rnd) \<rparr>"
    using i e(2) by (cases "message (entry q1 p)") simp
  moreover have "queue_ok q1" using queue_ok_popImpl[OF ok, of now rnd] q1 by simp
  ultimately show ?thesis using q1 lanes m by (auto simp: pop_def)
qed

lemma ack_holding:
  assumes ok: "queue_ok q" and hold: "holding q i tok"
  shows "\<exists>q1. ack q i tok False d now = (Return (), q1) \<and>
    map_find (m_msg_map q1) = (map_find (m_msg_map q))(i := None) \<and> lane_ids q1 = lane_ids q \<and> queue_ok q1"
proof -
  obtain p where p: "map_find (m_msg_map q) i = Some p" "state (entry q p) = MSG_RUNNING"
      "msg_token (message (entry q p)) = tok" using hold by (auto simp: holding_def)
  let ?q = "q\<lparr> m_msg_pool := m_msg_pool q @ [p], m_msg_map := map_erase i (m_msg_map q) \<rparr>"
  have a: "ack q i tok False d now = (Return (), ?q)" using p by (simp add: ack_def ackImpl_def)
  have "lane_ids ?q = lane_ids q" by (rule lane_ids_cong) (simp_all add: id_of_def)
  moreover have "queue_ok ?q" using queue_ok_ackImpl[OF ok, of i tok False d now] a by (simp add: ack_def)
  ultimately show ?thesis using a by (simp add: map_find_erase)
qed

text \<open>Identifiers taken out of the map.\<close>

definition without :: "string list \<Rightarrow> (string \<Rightarrow> ptr option) \<Rightarrow> string \<Rightarrow> ptr option" where
  "without is m = (\<lambda>k. if k \<in> set is then None else m k)"

lemma without_simps [simp]: "without [] m = m" "without js (without is m) = without (is @ js) m"
  by (auto simp: without_def)

lemma without_one: "m(i := None) = without [i] m"
  by (auto simp: without_def)

lemma pushes_map:
  "queue_ok q \<Longrightarrow> all_accepted pr clock n ids q \<Longrightarrow> k \<notin> set ids \<Longrightarrow>
     map_find (m_msg_map (pushes pr clock n ids q)) k = map_find (m_msg_map q) k"
proof (induction ids arbitrary: q n)
  case (Cons i ids)
  let ?q = "snd (push q i pr 0 (fst (clock n)) (snd (clock n)))"
  have acc: "fst (push q i pr 0 (fst (clock n)) (snd (clock n))) = Return ()" using Cons.prems(2) by simp
  obtain p where "m_msg_map ?q = map_put i p (m_msg_map q)" using push_map[OF Cons.prems(1) acc] by blast
  moreover have "queue_ok ?q" using queue_ok_push[OF Cons.prems(1)] by blast
  ultimately show ?case
    using Cons.IH[of ?q "n + 1"] Cons.prems smap.find_put[OF wf_map_ok[OF Cons.prems(1)]] by simp
qed simp

section \<open>Reading messages\<close>

lemma stoi_to_string: "n < 2 ^ 31 \<Longrightarrow> stoi (to_string n) = Return (int n)"
proof -
  assume n: "n < 2 ^ 31"
  obtain c cs where s: "to_string n = c # cs" by (cases "to_string n") auto
  have c: "is_digit c" using to_string_digits[of c n] by (simp add: s)
  have t: "takeWhile is_digit (to_string n) = to_string n" using to_string_digits[of _ n] by (simp add: takeWhile_eq_all_conv)
  have d: "dropWhile is_space (to_string n) = to_string n" "hd (to_string n) \<noteq> CHR ''-''" "hd (to_string n) \<noteq> CHR ''+''"
    using digit_not(1-3)[OF c] by (simp_all add: s)
  have "int n < 2 ^ 31" using n by simp
  then show ?thesis by (simp add: stoi_def Let_def d t)
qed

text \<open>The identifiers a client accepts: numbers in its range.\<close>

definition in_range :: "u64 \<Rightarrow> nat \<Rightarrow> string \<Rightarrow> bool" where
  "in_range offset k i \<longleftrightarrow> (\<exists>n. i = to_string n \<and> unat offset \<le> n \<and> n < unat offset + k)"

lemma read_message_ok:
  assumes "in_range offset k (msg_id m)" and "unat offset + k \<le> 2 ^ 31"
  shows "read_message offset (word_of_nat k) (VT_OBJECT (msg_object m)) = Return (msg_id m, msg_token m)"
proof -
  obtain n where n: "msg_id m = to_string n" "unat offset \<le> n" "n < unat offset + k" using assms(1) by (auto simp: in_range_def)
  have small: "x \<le> 2 ^ 31 \<Longrightarrow> unat (word_of_nat x :: u64) = x" for x
    by (rule unat_of_nat_le[of _ "2 ^ 31"]) simp
  have un: "unat (word_of_nat n :: u64) = n" using n(3) assms(2) by (intro small) simp
  have uk: "unat (word_of_nat k :: u64) = k" using assms(2) by (intro small) simp
  have "unat (offset + word_of_nat k) = unat offset + k"
    using assms(2) uk by (subst unat_add_lem[THEN iffD1]) simp_all
  then have "\<not> (word_of_nat n :: u64) < offset" "\<not> offset + word_of_nat k \<le> word_of_nat n"
    using n un by (simp_all add: word_less_nat_alt word_le_nat_alt)
  moreover have "stoi (msg_id m) = Return (int n)" using n assms(2) by (simp add: stoi_to_string)
  ultimately show ?thesis
    by (simp add: read_message_def Value_asObject_def read_object_def)
qed

lemma in_range_plain: "in_range offset k i \<Longrightarrow> plain i"
  by (auto simp: in_range_def)

section \<open>Requests\<close>

lemma doRequest_pop:
  assumes "path_of_path uri_path" and "alone w" and ok: "queue_ok q" and ne: "concat (lane_ids q) = i # is" and "plain i"
  shows "\<exists>q1 tok. doRequest ho (served uri_path w) (client_request ''POST'' ''/pop'' None) reply (n, q)
      = (Return (VT_OBJECT (msg_object \<lparr> msg_id = i, msg_token = tok \<rparr>)), (n + 1, q1)) \<and>
    plain tok \<and> holding q1 i tok \<and> concat (lane_ids q1) = is \<and> m_msg_map q1 = m_msg_map q \<and> queue_ok q1"
proof -
  let ?w = "w n"
  let ?tok = "to_string (unat (random_token ?w))"
  let ?m = "\<lparr> msg_id = i, msg_token = ?tok \<rparr>"
  obtain p q1 where q1: "pop q (pop_now ?w) (random_token ?w) = (Return p, q1)" "message (entry q1 p) = ?m"
    "holding q1 i ?tok" "concat (lane_ids q1) = is" "m_msg_map q1 = m_msg_map q" "queue_ok q1"
    using pop_holding[OF ok ne] by blast
  have "fromString ho (resp_body (msg_reply ?m)) = Return (VT_OBJECT (msg_object ?m))"
    using assms(5) by (intro fromString_msg_reply) simp_all
  then have "doRequest ho (served uri_path w) (client_request ''POST'' ''/pop'' None) reply (n, q)
      = (Return (VT_OBJECT (msg_object ?m)), (n + 1, q1))"
    by (simp add: doRequest_def served_def handleRequest_def routes[OF assms(1)] PopRequest_def send_popped_def q1
        alone_id[OF assms(2)] read_reply_def)
  with q1 show ?thesis by (intro exI[of _ q1] exI[of _ ?tok]) simp
qed

lemma doRequest_pop_ack:
  assumes "path_of_path uri_path" and "alone w" and ok: "queue_ok q" and hold: "holding q j t" and "plain j" and "plain t"
    and ne: "concat (lane_ids q) = i # is" and "plain i"
  shows "\<exists>q1 tok. doRequest ho (served uri_path w) (client_request ''POST'' ''/pop_ack'' (Some (ack_body j t))) reply (n, q)
      = (Return (VT_OBJECT (msg_object \<lparr> msg_id = i, msg_token = tok \<rparr>)), (n + 1, q1)) \<and>
    plain tok \<and> holding q1 i tok \<and> concat (lane_ids q1) = is \<and>
    map_find (m_msg_map q1) = without [j] (map_find (m_msg_map q)) \<and> queue_ok q1"
proof -
  let ?w = "w n"
  let ?tok = "to_string (unat (random_token ?w))"
  let ?m = "\<lparr> msg_id = i, msg_token = ?tok \<rparr>"
  obtain q0 where q0: "ack q j t False 0 (ack_now ?w) = (Return (), q0)"
    "map_find (m_msg_map q0) = without [j] (map_find (m_msg_map q))" "lane_ids q0 = lane_ids q" "queue_ok q0"
    using ack_holding[OF ok hold] unfolding without_one by blast
  obtain p q1 where q1: "pop q0 (pop_now ?w) (random_token ?w) = (Return p, q1)" "message (entry q1 p) = ?m"
    "holding q1 i ?tok" "concat (lane_ids q1) = is" "m_msg_map q1 = m_msg_map q0" "queue_ok q1"
    using pop_holding[OF q0(4)] ne q0(3) by metis
  have "fromString ho (resp_body (msg_reply ?m)) = Return (VT_OBJECT (msg_object ?m))"
    using assms(8) by (intro fromString_msg_reply) simp_all
  then have "doRequest ho (served uri_path w) (client_request ''POST'' ''/pop_ack'' (Some (ack_body j t))) reply (n, q)
      = (Return (VT_OBJECT (msg_object ?m)), (n + 1, q1))"
    by (simp add: doRequest_def served_def handleRequest_def routes[OF assms(1)] PopAckRequest_def send_popped_def q1
        ack_call_plain[OF assms(5,6)] q0 catching_def alone_id[OF assms(2)] read_reply_def)
  with q1 q0 show ?thesis by (intro exI[of _ q1] exI[of _ ?tok]) simp
qed

lemma doRequest_ack:
  assumes "path_of_path uri_path" and ok: "queue_ok q" and hold: "holding q j t" and "plain j" and "plain t"
  shows "\<exists>q1 v. doRequest ho (served uri_path w) (client_request ''POST'' ''/ack'' (Some (ack_body j t))) reply (n, q)
      = (Return v, (n + 1, q1)) \<and> lane_ids q1 = lane_ids q \<and>
    map_find (m_msg_map q1) = without [j] (map_find (m_msg_map q)) \<and> queue_ok q1"
proof -
  obtain q0 where q0: "ack q j t False 0 (ack_now (w n)) = (Return (), q0)"
    "map_find (m_msg_map q0) = without [j] (map_find (m_msg_map q))" "lane_ids q0 = lane_ids q" "queue_ok q0"
    using ack_holding[OF ok hold] unfolding without_one by blast
  then show ?thesis
    by (simp add: doRequest_def served_def handleRequest_def routes[OF assms(1)] AckRequest_def
        ack_call_plain[OF assms(4,5)] catching_def read_reply_def sendResponse_def)
qed

section \<open>The loops\<close>

definition held :: "(string \<times> string) option \<Rightarrow> string list" where
  "held msg = (case msg of None \<Rightarrow> [] | Some (i, t) \<Rightarrow> [i])"

lemma held_simps [simp]: "held None = []" "held (Some (i, t)) = [i]"
  by (simp_all add: held_def)

lemma pop_loop_ok:
  assumes env: "path_of_path uri_path" "alone w" and range: "unat offset + k \<le> 2 ^ 31"
  shows "queue_ok q \<Longrightarrow> concat (lane_ids q) = ids @ rest \<Longrightarrow> \<forall>i \<in> set ids. in_range offset k i \<Longrightarrow>
      (case msg of None \<Rightarrow> ids \<noteq> [] | Some (i, t) \<Rightarrow> holding q i t \<and> plain i \<and> plain t) \<Longrightarrow>
    \<exists>i t v q1. pop_loop ho (served uri_path w) offset (word_of_nat k) (length ids) msg reply (n, q)
        = (Return (i, t), v, (n + length ids, q1)) \<and>
      i = last (held msg @ ids) \<and> holding q1 i t \<and> plain i \<and> plain t \<and> concat (lane_ids q1) = rest \<and>
      map_find (m_msg_map q1) = without (butlast (held msg @ ids)) (map_find (m_msg_map q)) \<and> queue_ok q1"
proof (induction ids arbitrary: q msg reply n)
  case Nil
  then obtain i t where "msg = Some (i, t)" by (cases msg) auto
  with Nil show ?case by simp
next
  case (Cons i ids)
  have ne: "concat (lane_ids q) = i # (ids @ rest)" using Cons.prems(2) by simp
  have pi: "plain i" and ri: "in_range offset k i" and rids: "\<forall>j \<in> set ids. in_range offset k j"
    using Cons.prems(3) in_range_plain by auto
  define request where "request = (case msg of
      None \<Rightarrow> client_request ''POST'' ''/pop'' None
    | Some (j, t) \<Rightarrow> client_request ''POST'' ''/pop_ack'' (Some (ack_body j t)))"
  have "\<exists>q1 tok. doRequest ho (served uri_path w) request reply (n, q)
      = (Return (VT_OBJECT (msg_object \<lparr> msg_id = i, msg_token = tok \<rparr>)), (n + 1, q1)) \<and>
    plain tok \<and> holding q1 i tok \<and> concat (lane_ids q1) = ids @ rest \<and>
    map_find (m_msg_map q1) = without (held msg) (map_find (m_msg_map q)) \<and> queue_ok q1"
  proof (cases msg)
    case None
    then show ?thesis
      using doRequest_pop[OF env Cons.prems(1) ne pi, of ho reply n] by (simp add: request_def) metis
  next
    case (Some jt)
    then obtain j t where jt: "msg = Some (j, t)" "holding q j t" "plain j" "plain t"
      using Cons.prems(4) by (cases jt) auto
    then show ?thesis
      using doRequest_pop_ack[OF env Cons.prems(1) jt(2-4) ne pi, of ho reply n] by (simp add: request_def)
  qed
  then obtain q1 tok where q1: "doRequest ho (served uri_path w) request reply (n, q)
      = (Return (VT_OBJECT (msg_object \<lparr> msg_id = i, msg_token = tok \<rparr>)), (n + 1, q1))"
    "plain tok" "holding q1 i tok" "concat (lane_ids q1) = ids @ rest"
    "map_find (m_msg_map q1) = without (held msg) (map_find (m_msg_map q))" "queue_ok q1" by blast
  have rm: "read_message offset (word_of_nat k) (VT_OBJECT (msg_object \<lparr> msg_id = i, msg_token = tok \<rparr>)) = Return (i, tok)"
    using read_message_ok[of offset k "\<lparr> msg_id = i, msg_token = tok \<rparr>"] ri range by simp
  have step: "pop_loop ho (served uri_path w) offset (word_of_nat k) (length (i # ids)) msg reply (n, q)
      = pop_loop ho (served uri_path w) offset (word_of_nat k) (length ids) (Some (i, tok))
          (VT_OBJECT (msg_object \<lparr> msg_id = i, msg_token = tok \<rparr>)) (n + 1, q1)"
    using q1(1) by (simp add: Let_def request_def[symmetric] rm)
  have hold: "case Some (i, tok) of None \<Rightarrow> ids \<noteq> [] | Some (i, t) \<Rightarrow> holding q1 i t \<and> plain i \<and> plain t"
    using q1(2,3) pi by simp
  obtain j t v q2 where q2: "pop_loop ho (served uri_path w) offset (word_of_nat k) (length ids) (Some (i, tok))
          (VT_OBJECT (msg_object \<lparr> msg_id = i, msg_token = tok \<rparr>)) (n + 1, q1) = (Return (j, t), v, (n + 1 + length ids, q2))"
      "j = last (held (Some (i, tok)) @ ids)" "holding q2 j t" "plain j" "plain t" "concat (lane_ids q2) = rest"
      "map_find (m_msg_map q2) = without (butlast (held (Some (i, tok)) @ ids)) (map_find (m_msg_map q1))" "queue_ok q2"
    using Cons.IH[OF q1(6,4) rids hold] by blast
  have map: "map_find (m_msg_map q2) = without (butlast (held msg @ i # ids)) (map_find (m_msg_map q))"
    using q2(7) q1(5) by (simp add: butlast_append)
  show ?case
    unfolding step q2(1) using q2(2-6,8) map by simp
qed

lemma doPop_ok:
  assumes env: "path_of_path uri_path" "alone w" and range: "unat offset + length ids \<le> 2 ^ 31"
    and q: "queue_ok q" "concat (lane_ids q) = ids @ rest" and ids: "ids \<noteq> []" "\<forall>i \<in> set ids. in_range offset (length ids) i"
  shows "\<exists>m q1. doPop ho (served uri_path w) offset (length ids) (n, q) = (Return (), (m, q1)) \<and>
    concat (lane_ids q1) = rest \<and> map_find (m_msg_map q1) = without ids (map_find (m_msg_map q)) \<and> queue_ok q1"
proof -
  have "case None of None \<Rightarrow> ids \<noteq> [] | Some (i, t) \<Rightarrow> holding q i t \<and> plain i \<and> plain t" using ids(1) by simp
  from pop_loop_ok[OF env range q ids(2) this, of ho VT_NULL n]
  obtain i t v q1 where l: "pop_loop ho (served uri_path w) offset (word_of_nat (length ids)) (length ids) None VT_NULL (n, q)
        = (Return (i, t), v, (n + length ids, q1))"
      and q1: "i = last ids" "holding q1 i t" "plain i" "plain t" "concat (lane_ids q1) = rest"
      "map_find (m_msg_map q1) = without (butlast ids) (map_find (m_msg_map q))" "queue_ok q1" by auto
  from doRequest_ack[OF env(1) q1(7,2,3,4), of ho w v "n + length ids"]
  obtain q2 u where a: "doRequest ho (served uri_path w) (client_request ''POST'' ''/ack'' (Some (ack_body i t))) v (n + length ids, q1)
      = (Return u, (n + length ids + 1, q2))" and q2: "lane_ids q2 = lane_ids q1"
      "map_find (m_msg_map q2) = without [i] (map_find (m_msg_map q1))" "queue_ok q2" by blast
  have "map_find (m_msg_map q2) = without ids (map_find (m_msg_map q))"
    using q2(2) q1(6) ids(1) unfolding q1(1) by simp
  then show ?thesis using a q2 q1(5) by (simp add: doPop_def l returns_def)
qed

lemma doPush_ok:
  assumes env: "path_of_path uri_path" "alone w" and q: "queue_ok q"
    and acc: "all_accepted 0 (push_clock (w n)) 0 (push_ids offset k) q"
  shows "doPush ho (served uri_path w) offset k (n, q)
    = (Return (), (n + 1, pushes 0 (push_clock (w n)) 0 (push_ids offset k) q))"
  by (simp add: doPush_def doRequest_def served_def handleRequest_def routes[OF env(1)] alone_id[OF env(2)]
      PushRequest_accepts[OF q acc] read_reply_def sendResponse_def returns_def)

end
