(* ===== verification/Client_Tests.thy ===== *)
theory Client_Tests
  imports Client_Model
begin

text \<open>
  The tests of \<open>server/mqclient.cpp\<close> that combine the basic requests: failed messages, the two
  measurements of speed, and the program that runs everything. What is printed is left out. The
  time that passes while the client sleeps is the parameter \<open>sleep\<close>, a change of the other side.
\<close>

unbundle bit_operations_syntax

definition then_do :: "'a outcome \<times> 's \<Rightarrow> ('a \<Rightarrow> 's \<Rightarrow> 'b outcome \<times> 's) \<Rightarrow> 'b outcome \<times> 's" where
  "then_do rs f =
     (case rs of
        (Return x, s) \<Rightarrow> f x s
      | (Throw e, s) \<Rightarrow> (Throw e, s)
      | (Wait, s) \<Rightarrow> (Wait, s)
      | (Undefined, s) \<Rightarrow> (Undefined, s))"

section \<open>Messages that fail\<close>

text \<open>\<open>k\<close> times: pop a message, then sleep.\<close>

fun pop_and_sleep ::
  "eval_order \<Rightarrow> 's session \<Rightarrow> ('s \<Rightarrow> 's) \<Rightarrow> nat \<Rightarrow> Value \<Rightarrow> 's \<Rightarrow> Value outcome \<times> 's"
where
  "pop_and_sleep ho send sleep 0 reply s = (Return reply, s)"
| "pop_and_sleep ho send sleep (Suc k) reply s =
     then_do (doRequest ho send (client_request ''POST'' ''/pop'' None) reply s)
       (\<lambda>v s1. pop_and_sleep ho send sleep k v (sleep s1))"

text \<open>Comparing a number of the reply; \<open>err\<close> is what is thrown when it differs.\<close>

definition expect_number :: "Object \<Rightarrow> string \<Rightarrow> double \<Rightarrow> string \<Rightarrow> unit outcome" where
  "expect_number obj key n err =
     bind_outcome (Object_getNumber obj key) (\<lambda>d.
       if \<not> dbl_equal d n then Throw (runtime_error err) else Return ())"

definition expect_counts :: "double \<Rightarrow> string \<Rightarrow> string \<Rightarrow> Value \<Rightarrow> unit outcome" where
  "expect_counts failed failed_err active_err reply =
     bind_outcome (Value_asObject reply) (\<lambda>obj.
     bind_outcome (expect_number obj ''failed'' failed failed_err) (\<lambda>_.
     expect_number obj ''active'' 0 active_err))"

definition testFailureHanding :: "eval_order \<Rightarrow> 's session \<Rightarrow> ('s \<Rightarrow> 's) \<Rightarrow> 's \<Rightarrow> nat outcome \<times> 's" where
  "testFailureHanding ho send sleep s =
     (let count_request = client_request ''GET'' ''/count'' None in
      case
        then_do (doPush ho send 0 1 s) (\<lambda>_ s1.
        then_do (pop_and_sleep ho send sleep 2 VT_NULL s1) (\<lambda>reply s2.
        then_do (doRequest ho send count_request reply s2) (\<lambda>reply1 s3.
        then_do (expect_counts dbl_one ''Incorrect failed count'' ''Incorrect active count'' reply1, s3) (\<lambda>_ s3.
        then_do (doGetFailed ho send s3) (\<lambda>ids s4.
        then_do (doEraseFailed ho send ids s4) (\<lambda>_ s5.
        then_do (doRequest ho send count_request reply1 s5) (\<lambda>reply2 s6.
          (expect_counts 0 ''Incorrect failed count after erase'' ''Incorrect active count after erase'' reply2,
           s6))))))))
      of (r, s7) \<Rightarrow> (exit_code r, s7))"

section \<open>Speed\<close>

fun ping_loop :: "eval_order \<Rightarrow> 's session \<Rightarrow> nat \<Rightarrow> Value \<Rightarrow> 's \<Rightarrow> unit outcome \<times> 's" where
  "ping_loop ho send 0 reply s = (Return (), s)"
| "ping_loop ho send (Suc k) reply s =
     then_do (doRequest ho send (client_request ''POST'' ''/ping'' None) reply s)
       (\<lambda>v s1. ping_loop ho send k v s1)"

definition testPingSpeed :: "eval_order \<Rightarrow> 's session \<Rightarrow> 's \<Rightarrow> nat outcome \<times> 's" where
  "testPingSpeed ho send s = (case ping_loop ho send 5000 VT_NULL s of (r, s1) \<Rightarrow> (exit_code r, s1))"

text \<open>The loop from index \<open>j\<close> with \<open>k\<close> more rounds of 100 messages.\<close>

fun push_pop_loop :: "eval_order \<Rightarrow> 's session \<Rightarrow> nat \<Rightarrow> nat \<Rightarrow> 's \<Rightarrow> unit outcome \<times> 's" where
  "push_pop_loop ho send j 0 s = (Return (), s)"
| "push_pop_loop ho send j (Suc k) s =
     then_do (doPush ho send (word_of_nat (j * 100)) 100 s) (\<lambda>_ s1.
     then_do (doPop ho send (word_of_nat (j * 100)) 100 s1) (\<lambda>_ s2.
     push_pop_loop ho send (j + 1) k s2))"

definition testPushPopSpeed :: "eval_order \<Rightarrow> 's session \<Rightarrow> 's \<Rightarrow> nat outcome \<times> 's" where
  "testPushPopSpeed ho send s = (case push_pop_loop ho send 0 40 s of (r, s1) \<Rightarrow> (exit_code r, s1))"

section \<open>The program\<close>

text \<open>The tests in their order, with the exit codes combined by \<open>|=\<close>.\<close>

fun run_tests :: "('s \<Rightarrow> nat outcome \<times> 's) list \<Rightarrow> nat \<Rightarrow> 's \<Rightarrow> nat outcome \<times> 's" where
  "run_tests [] ec s = (Return ec, s)"
| "run_tests (t # ts) ec s = then_do (t s) (\<lambda>r s1. run_tests ts (ec OR r) s1)"

definition mqclient_main :: "eval_order \<Rightarrow> 's session \<Rightarrow> ('s \<Rightarrow> 's) \<Rightarrow> 's \<Rightarrow> nat outcome \<times> 's" where
  "mqclient_main ho send sleep s =
     (case
        run_tests
          [testCount ho send 0 0, testPush ho send 0 100, testCount ho send 100 0, testPop ho send 0 100,
           testCount ho send 0 0, testFailureHanding ho send sleep, testPingSpeed ho send,
           testPushPopSpeed ho send] 0 s
      of (Throw e, s1) \<Rightarrow> (Return 1, s1)
       | (r, s1) \<Rightarrow> (r, s1))"

end
