(* ===== verification/Server_Sessions.thy ===== *)
theory Server_Sessions
  imports Client_Lemmas Client_Tests
begin

text \<open>
  What every request and every client program keep of the queue. A predicate that the four
  operations behind the HTTP interface keep is kept by each request (locale
  \<open>queue_predicate\<close>) and, since a client only sends requests, by its loops and tests (locale
  \<open>session_predicate\<close>). Both are used for reachability and for the sizes of the queue.
\<close>

section \<open>Requests\<close>

locale queue_predicate =
  fixes P :: "Queue \<Rightarrow> bool"
  assumes push_keeps: "P q \<Longrightarrow> P (snd (push q i pr d now now'))"
    and pop_keeps: "P q \<Longrightarrow> P (snd (pop q now rnd))"
    and ack_keeps: "P q \<Longrightarrow> P (snd (ack q i tok rq d now))"
    and erase_keeps: "P q \<Longrightarrow> P (snd (eraseFailed q ids))"
begin

lemma push_loop_keeps:
  "P q \<Longrightarrow> \<forall>x. P x \<longrightarrow> P (env x) \<Longrightarrow> P (snd (snd (push_loop ao env clock n ms q)))"
proof (induction ao env clock n ms q rule: push_loop.induct)
  case (2 ao env clock n m ms q)
  show ?case
  proof (cases "Value_asObject m")
    case (Return msg)
    let ?msg = "snd (Object_has (snd (Object_has (snd (Object_has msg ''id'')) ''pri'')) ''del'')"
    show ?thesis
    proof (cases "snd (snd (getCounts q)) = 0")
      case False
      show ?thesis
      proof (cases "push_args ao m ?msg")
        case (Return a)
        obtain i pr d where a: "a = (i, pr, d)" by (cases a)
        obtain r q2 where p: "push (env q) i pr d (fst (clock n)) (snd (clock n)) = (r, q2)" by fastforce
        then have "P q2"
          using push_keeps[of "env q" i pr d "fst (clock n)" "snd (clock n)"] "2.prems" by simp
        then show ?thesis
          using "2.IH"[OF \<open>Value_asObject m = Return msg\<close> refl False refl Return] "2.prems" Return False p
          by (cases r) (simp_all add: \<open>Value_asObject m = Return msg\<close> a Let_def)
      qed (use False Return "2.prems" in \<open>simp_all add: Let_def\<close>)
    qed (simp add: Return "2.prems"(1) Let_def)
  qed (use "2.prems"(1) in simp_all)
qed simp

lemma catching_keeps: "P (snd r) \<Longrightarrow> P (snd (catching r))"
  by (cases r; cases "fst r") (auto simp: catching_def)

lemma send_keeps: "P (snd r) \<Longrightarrow> \<forall>x. P x \<longrightarrow> P (env x) \<Longrightarrow> P (snd (send_popped env r))"
  by (cases r; cases "fst r") (simp_all add: send_popped_def Let_def)

lemma ack_call_keeps: "P q \<Longrightarrow> P (snd (ack_call ho ao now r q))"
  by (auto simp: ack_call_def ack_keeps split: outcome.split prod.split)

lemma request_keeps:
  assumes "P q" and "\<forall>x. P x \<longrightarrow> P (others w x)" and "\<forall>x. P x \<longrightarrow> P (others_reply w x)"
  shows "P (snd (handleRequest uri_path w r q))"
proof -
  have erase: "eraseFailed q ids = (x, q1) \<Longrightarrow> P q1" for ids x q1
    using erase_keeps[OF assms(1), of ids] by simp
  have loop: "push_loop ao (others w) clock n ms q = (x, l, q1) \<Longrightarrow> P q1" for ao clock n ms x l q1
    using push_loop_keeps[OF assms(1,2), of ao clock n ms] by simp
  have "P (snd (PushRequest ho ao (others w) clock r q))" for ho ao clock
    using assms(1) by (auto simp: PushRequest_def split: outcome.split prod.split intro!: catching_keeps dest: loop)
  moreover have "P (snd (PopRequest (others_reply w) now rnd r q))" for now rnd
    using assms by (simp add: PopRequest_def send_keeps pop_keeps)
  moreover have "P (snd (AckRequest ho ao now r q))" for ho ao now
    using ack_call_keeps[OF assms(1), of ho ao now r] assms(1)
    by (auto simp: AckRequest_def split: prod.split intro!: catching_keeps)
  moreover have "P (snd (PopAckRequest ho ao (others w) (others_reply w) now now' rnd r q))" for ho ao now now' rnd
  proof -
    obtain x q1 where x: "ack_call ho ao now r q = (x, q1)" by fastforce
    then have "P q1" using ack_call_keeps[OF assms(1), of ho ao now r] by simp
    then show ?thesis
      using assms by (cases x) (simp_all add: PopAckRequest_def x catching_keeps send_keeps pop_keeps)
  qed
  moreover have "P (snd (EraseFailedRequest ho r q))" for ho
    using assms(1) by (auto simp: EraseFailedRequest_def split: outcome.split prod.split intro!: catching_keeps dest: erase)
  ultimately show ?thesis
    using assms(1) by (simp add: handleRequest_def split: option.split Endpoint_t.split)
qed

end

interpretation requests_reach: queue_predicate reachable_queue
  by unfold_locales (simp_all add: reachable_push reachable_pop reachable_ack reachable_erase)

text \<open>The capacity and the number of priorities never change.\<close>

definition queue_size :: "Queue \<Rightarrow> u64 \<times> nat" where
  "queue_size q = (m_capacity q, length (m_queue_list q))"

lemmas queue_parts = Let_def getMsgEntry_def enqueue_front_def insertDelayedMsg_def push_front_def set_entry_def

lemma size_erase_loop: "queue_size (snd (erase_loop ids acc q)) = queue_size q"
  by (induction ids acc q rule: erase_loop.induct) (auto simp: queue_size_def split: option.split)

lemma size_of_operations:
  "queue_size (snd (push q i pr d now now')) = queue_size q"
  "queue_size (snd (pop q now rnd)) = queue_size q"
  "queue_size (snd (ack q i tok rq d now)) = queue_size q"
  "queue_size (snd (eraseFailed q ids)) = queue_size q"
     apply (auto simp: queue_size_def push_def queue_parts split: prod.splits)[1]
    apply (auto simp: queue_size_def pop_def popImpl_def queue_parts pop_first_length split: prod.splits option.splits)[1]
   apply (auto simp: queue_size_def ack_def ackImpl_def queue_parts split: prod.splits option.splits)[1]
  using size_erase_loop[of ids "[]" q] by (auto simp: queue_size_def eraseFailed_def split: prod.split)

interpretation requests_size: queue_predicate "\<lambda>q. queue_size q = n" for n
  by unfold_locales (simp_all add: size_of_operations)

section \<open>Clients\<close>

locale session_predicate =
  fixes send :: "'s session" and I :: "'s \<Rightarrow> bool"
  assumes send_keeps: "I s \<Longrightarrow> I (snd (send r s))"
begin

lemma doRequest_keeps: "I s \<Longrightarrow> I (snd (doRequest ho send r reply s))"
  using send_keeps[of s r] by (cases "send r s") (simp add: doRequest_def)

lemma then_do_keeps: "I (snd r) \<Longrightarrow> (\<And>x s. I s \<Longrightarrow> I (snd (f x s))) \<Longrightarrow> I (snd (then_do r f))"
  by (cases r; cases "fst r") (auto simp: then_do_def)

lemma doPush_keeps: "I s \<Longrightarrow> I (snd (doPush ho send offset k s))"
  using doRequest_keeps by (simp add: doPush_def split: prod.split) (metis snd_conv)

lemma pop_loop_keeps: "I s \<Longrightarrow> I (snd (snd (pop_loop ho send offset c k msg reply s)))"
proof (induction k arbitrary: msg reply s)
  case (Suc k)
  define r where "r = (case msg of None \<Rightarrow> client_request ''POST'' ''/pop'' None
    | Some (mid, tok) \<Rightarrow> client_request ''POST'' ''/pop_ack'' (Some (ack_body mid tok)))"
  obtain x s1 where x: "doRequest ho send r reply s = (x, s1)" by fastforce
  then have "I s1" using doRequest_keeps[OF Suc.prems, of ho r reply] by simp
  then show ?case
    using Suc.IH by (cases x) (simp_all add: r_def[symmetric] x Let_def split: outcome.split)
qed simp

lemma doPop_keeps: "I s \<Longrightarrow> I (snd (doPop ho send offset k s))"
proof -
  assume "I s"
  obtain x v s1 where x: "pop_loop ho send offset (word_of_nat k) k None VT_NULL s = (x, v, s1)"
    by (metis prod_cases3)
  then have "I s1" using pop_loop_keeps[OF \<open>I s\<close>, of ho offset "word_of_nat k" k None VT_NULL] by simp
  then show ?thesis
    using doRequest_keeps[of s1] by (cases x) (auto simp: doPop_def x split: prod.split, metis snd_conv)
qed

lemma monitor_keeps:
  "I s \<Longrightarrow> I (snd (doGetFailed ho send s))" "I s \<Longrightarrow> I (snd (doEraseFailed ho send ids s))"
  "I s \<Longrightarrow> I (snd (testCount ho send a f s))"
  using doRequest_keeps by (simp_all add: doGetFailed_def doEraseFailed_def testCount_def split: prod.split) (metis snd_conv)+

lemma push_pop_loop_keeps: "I s \<Longrightarrow> I (snd (push_pop_loop ho send j k s))"
  by (induction k arbitrary: j s) (simp_all add: then_do_keeps doPush_keeps doPop_keeps)

lemma ping_loop_keeps: "I s \<Longrightarrow> I (snd (ping_loop ho send k reply s))"
  by (induction k arbitrary: reply s) (simp_all add: then_do_keeps doRequest_keeps)

lemma pop_and_sleep_keeps:
  "\<forall>x. I x \<longrightarrow> I (sleep x) \<Longrightarrow> I s \<Longrightarrow> I (snd (pop_and_sleep ho send sleep k reply s))"
  by (induction k arbitrary: reply s) (simp_all add: then_do_keeps doRequest_keeps)

lemma exit_keeps: "I (snd r) \<Longrightarrow> I (snd (case r of (x, s) \<Rightarrow> (exit_code x, s)))"
  by (cases r) simp

lemma run_tests_keeps: "I s \<Longrightarrow> \<forall>t \<in> set ts. \<forall>s. I s \<longrightarrow> I (snd (t s)) \<Longrightarrow> I (snd (run_tests ts ec s))"
  by (induction ts arbitrary: ec s) (simp_all add: then_do_keeps)

lemma failure_test_keeps:
  assumes "\<forall>x. I x \<longrightarrow> I (sleep x)"
  shows "I s \<Longrightarrow> I (snd (testFailureHanding ho send sleep s))"
  unfolding testFailureHanding_def Let_def
  by (intro exit_keeps then_do_keeps doPush_keeps pop_and_sleep_keeps doRequest_keeps monitor_keeps assms)
    (simp_all add: doRequest_keeps)

text \<open>The whole client program keeps what single requests and the passing of time keep.\<close>

lemma main_keeps:
  assumes "\<forall>x. I x \<longrightarrow> I (sleep x)" and "I s"
  shows "I (snd (mqclient_main ho send sleep s))"
proof -
  let ?ts = "[testCount ho send 0 0, testPush ho send 0 100, testCount ho send 100 0, testPop ho send 0 100,
    testCount ho send 0 0, testFailureHanding ho send sleep, testPingSpeed ho send, testPushPopSpeed ho send]"
  have "I (snd (testPush ho send 0 100 s))" "I (snd (testPop ho send 0 100 s))" "I (snd (testPingSpeed ho send s))"
    "I (snd (testPushPopSpeed ho send s))" if "I s" for s
    using that unfolding testPush_def testPop_def testPingSpeed_def testPushPopSpeed_def
    by (intro exit_keeps doPush_keeps doPop_keeps ping_loop_keeps push_pop_loop_keeps; assumption)+
  then have "I (snd (run_tests ?ts 0 s))"
    using assms monitor_keeps(3) failure_test_keeps by (intro run_tests_keeps) auto
  then show ?thesis unfolding mqclient_main_def by (auto split: prod.split outcome.split)
qed

end

text \<open>With no other client, the session on the queue keeps it reachable and its sizes.\<close>

lemma served_queue: "snd (snd (served uri_path w r s)) = snd (handleRequest uri_path (w (fst s)) r (snd s))"
  by (simp add: served_def split: prod.split)

interpretation served_reach: session_predicate "served uri_path w" "\<lambda>s. alone w \<and> reachable_queue (snd s)"
  for uri_path w
  by unfold_locales (simp add: served_queue requests_reach.request_keeps alone_id)

interpretation served_size: session_predicate "served uri_path w" "\<lambda>s. alone w \<and> queue_size (snd s) = n"
  for uri_path w n
  by unfold_locales (simp add: served_queue requests_size.request_keeps alone_id)

end
