(* ===== verification/Client_Runs.thy ===== *)
theory Client_Runs
  imports Server_Sessions
begin

text \<open>
  The client's tests against the server: one round of publishing and consuming, from which the
  measurements of speed follow, and the test of failed messages for two retry limits.
\<close>

section \<open>One round\<close>

lemma push_ids_simps:
  assumes "unat offset + k \<le> 2 ^ 31"
  shows "length (push_ids offset k) = k" and "distinct (push_ids offset k)"
    and "\<forall>i \<in> set (push_ids offset k). in_range offset k i"
proof -
  have num: "unat (offset + word_of_nat j) = unat offset + j" if "j < k" for j
  proof -
    have "unat (word_of_nat j :: u64) = j"
      using unat_of_nat_le[of j "2 ^ 31"] assms that by simp
    then show ?thesis using assms that by (subst unat_add_lem[THEN iffD1]) simp_all
  qed
  then show "distinct (push_ids offset k)" "\<forall>i \<in> set (push_ids offset k). in_range offset k i"
    by (auto simp: push_ids_def distinct_map inj_on_def in_range_def)
qed (simp add: push_ids_def)

lemma push_pop_round:
  assumes "path_of_path uri_path" and "alone w" and "reachable_queue q"
    and "m_queue_list q \<noteq> []" and "lane_ids q ! 0 = []"
    and "k > 0" and "unat offset + k \<le> 2 ^ 31" and "length (m_msg_map q) + k \<le> unat (m_capacity q)"
    and "\<forall>i \<in> set (push_ids offset k). map_find (m_msg_map q) i = None"
  shows "\<exists>q1 m q2. doPush ho (served uri_path w) offset k (n, q) = (Return (), (n + 1, q1)) \<and>
    concat (lane_ids q1) = push_ids offset k @ concat (lane_ids q) \<and>
    doPop ho (served uri_path w) offset k (n + 1, q1) = (Return (), (m, q2)) \<and>
    concat (lane_ids q2) = concat (lane_ids q) \<and>
    map_find (m_msg_map q2) = map_find (m_msg_map q)"
proof -
  let ?ids = "push_ids offset k"
  note ids = push_ids_simps[OF assms(7)]
  have ok: "queue_ok q" using assms(3) by (rule reachable_ok)
  have acc: "all_accepted 0 (push_clock (w n)) 0 ?ids q"
    using all_acceptedI[OF ok, of 0 ?ids] ids assms(4,8,9) by simp
  define q1 where "q1 = pushes 0 (push_clock (w n)) 0 ?ids q"
  have push: "doPush ho (served uri_path w) offset k (n, q) = (Return (), (n + 1, q1))"
    unfolding q1_def by (rule doPush_ok[OF assms(1,2) ok acc])
  have ok1: "queue_ok q1" unfolding q1_def by (rule queue_ok_pushes[OF ok])
  obtain l ls where l: "lane_ids q = l # ls" using assms(4) by (cases "lane_ids q") (auto simp: lane_ids_def)
  have lanes: "concat (lane_ids q1) = ?ids @ concat (lane_ids q)"
    using pushes_lanes[OF ok acc] assms(5) by (simp add: q1_def l)
  have ne: "?ids \<noteq> []" "unat offset + length ?ids \<le> 2 ^ 31" "\<forall>i \<in> set ?ids. in_range offset (length ?ids) i"
    using ids assms(6,7) by auto
  obtain m q2 where q2: "doPop ho (served uri_path w) offset k (n + 1, q1) = (Return (), (m, q2))"
      "concat (lane_ids q2) = concat (lane_ids q)" "map_find (m_msg_map q2) = without ?ids (map_find (m_msg_map q1))"
    using doPop_ok[OF assms(1,2) ne(2) ok1 lanes ne(1,3)] ids(1) by metis
  have "map_find (m_msg_map q2) = map_find (m_msg_map q)"
    using q2(3) pushes_map[OF ok acc] assms(9) by (auto simp: q1_def without_def fun_eq_iff)
  with push lanes q2(1,2) show ?thesis by blast
qed

section \<open>Speed\<close>

text \<open>A server that has nothing to do and room for a batch.\<close>

definition idle :: "nat \<Rightarrow> Queue \<Rightarrow> bool" where
  "idle room q \<longleftrightarrow> reachable_queue q \<and> m_msg_map q = [] \<and> m_queue_list q \<noteq> [] \<and> room \<le> unat (m_capacity q)"

lemma idle_lanes: "idle room q \<Longrightarrow> concat (lane_ids q) = [] \<and> lane_ids q ! 0 = []"
proof -
  assume i: "idle room q"
  then have ok: "queue_ok q" using reachable_ok by (simp add: idle_def)
  have "concat (lane_ids q) = []"
  proof (rule ccontr)
    assume "concat (lane_ids q) \<noteq> []"
    then obtain x xs where "concat (lane_ids q) = x # xs" by (cases "concat (lane_ids q)") auto
    from pop_holding[OF ok this, of 0 0] obtain q1 where "holding q1 x (to_string (unat (0 :: u64)))" "m_msg_map q1 = m_msg_map q"
      by blast
    with i show False by (simp add: holding_def idle_def)
  qed
  moreover from this have "lane_ids q ! 0 \<in> set (lane_ids q)"
    using i by (intro nth_mem) (simp add: lane_ids_def idle_def)
  ultimately show ?thesis by auto
qed

lemma map_find_empty: "map_find m = map_find [] \<Longrightarrow> m = []"
  by (cases m) (auto simp: map_find_def fun_eq_iff split: if_splits)

lemma idle_round:
  assumes env: "path_of_path uri_path" "alone w" and q: "idle 100 q" and range: "j * 100 + 100 \<le> 2 ^ 31"
  shows "\<exists>s1 m q2. doPush ho (served uri_path w) (word_of_nat (j * 100)) 100 (n, q) = (Return (), s1) \<and>
    doPop ho (served uri_path w) (word_of_nat (j * 100)) 100 s1 = (Return (), (m, q2)) \<and> idle 100 q2"
proof -
  define off where "off = (word_of_nat (j * 100) :: u64)"
  have o: "unat off = j * 100" unfolding off_def using unat_of_nat_le[of "j * 100" "2 ^ 31"] range by simp
  have r: "reachable_queue q" using q by (simp add: idle_def)
  obtain q1 m q2 where p: "doPush ho (served uri_path w) off 100 (n, q) = (Return (), (n + 1, q1))"
      "doPop ho (served uri_path w) off 100 (n + 1, q1) = (Return (), (m, q2))"
      "map_find (m_msg_map q2) = map_find (m_msg_map q)"
    using push_pop_round[OF env r, of 100 off ho n] q idle_lanes[OF q] range o
    by (auto simp: idle_def map_find_def)
  have "alone w \<and> reachable_queue (snd (n + 1, q1))" "alone w \<and> queue_size (snd (n + 1, q1)) = queue_size q"
    using served_reach.doPush_keeps[of w "(n, q)" ho uri_path off 100] served_size.doPush_keeps[of w "(n, q)" "queue_size q" ho uri_path off 100]
      env(2) r by (simp_all add: p(1))
  then have "reachable_queue q2 \<and> queue_size q2 = queue_size q"
    using served_reach.doPop_keeps[of w "(n + 1, q1)" ho uri_path off 100] served_size.doPop_keeps[of w "(n + 1, q1)" "queue_size q" ho uri_path off 100]
    unfolding p(2) by simp
  then have "idle 100 q2" using q p(3) map_find_empty by (auto simp: idle_def queue_size_def)
  with p(1,2) show ?thesis unfolding off_def by blast
qed

lemma push_pop_loop_ok:
  assumes env: "path_of_path uri_path" "alone w"
  shows "idle 100 q \<Longrightarrow> (j + k) * 100 \<le> 2 ^ 31 \<Longrightarrow>
    \<exists>m q1. push_pop_loop ho (served uri_path w) j k (n, q) = (Return (), (m, q1)) \<and> idle 100 q1"
proof (induction k arbitrary: j n q)
  case (Suc k)
  obtain s1 m q2 where r: "doPush ho (served uri_path w) (word_of_nat (j * 100)) 100 (n, q) = (Return (), s1)"
      "doPop ho (served uri_path w) (word_of_nat (j * 100)) 100 s1 = (Return (), (m, q2))" "idle 100 q2"
    using idle_round[OF env Suc.prems(1), of j ho n] Suc.prems(2) by auto
  then show ?case using Suc.IH[OF r(3), of "j + 1" m] Suc.prems(2) by (simp add: then_do_def)
qed simp

lemma ping_loop_ok:
  assumes "path_of_path uri_path"
  shows "ping_loop ho (served uri_path w) k reply (n, q) = (Return (), (n + k, q))"
proof (induction k arbitrary: reply n)
  case (Suc k)
  have "map_of m_route_map (uri_path ''/ping'') = Some Route_ping"
    using assms by (simp add: path_of_path_def m_route_map_def)
  then have "doRequest ho (served uri_path w) (client_request ''POST'' ''/ping'' None) reply (n, q)
      = (Return (Value_clear reply), (n + 1, q))"
    by (simp add: doRequest_def served_def handleRequest_def client_request_def PingRequest_def sendResponse_def read_reply_def)
  then show ?case using Suc.IH by (simp add: then_do_def)
qed simp

lemma speed_tests_succeed:
  assumes "path_of_path uri_path" and "alone w" and "idle 100 q"
  shows "testPingSpeed ho (served uri_path w) (n, q) = (Return 0, (n + 5000, q))"
    and "\<exists>m q1. testPushPopSpeed ho (served uri_path w) (n, q) = (Return 0, (m, q1)) \<and> idle 100 q1"
  using ping_loop_ok[OF assms(1), of ho w 5000] push_pop_loop_ok[OF assms, of 0 40 ho n]
  by (auto simp: testPingSpeed_def testPushPopSpeed_def exit_code_def)

section \<open>Failed messages\<close>

text \<open>
  A server with one second to acknowledge, and a client that sends its requests five seconds
  apart; while it sleeps, the monitor looks at the queue once.
\<close>

definition quick_server :: "u64 \<Rightarrow> Queue" where
  "quick_server retries = Queue_create 3 100 1000 retries 300000 5000 True"

definition nap :: "nat \<times> Queue \<Rightarrow> nat \<times> Queue" where
  "nap s = (fst s, snd (monitor_poll (snd s) (5000000000 * int (fst s) - 1000000000)))"

definition every_five_seconds :: "nat \<Rightarrow> environment" where
  "every_five_seconds n =
     \<lparr> hex_order = [0, 1, 2, 3], arg_order = [0, 1, 2, 3],
       push_clock = (\<lambda>i. (5000000000 * int n, 5000000000 * int n)),
       ack_now = 5000000000 * int n, pop_now = 5000000000 * int n, random_token = 7,
       others = (\<lambda>q. q), others_reply = (\<lambda>q. q) \<rparr>"

text \<open>
  The test expects a limit of one retry, but with that limit the message fails at its first
  time-out and the second pop waits for a message that never comes. The test passes with a limit
  of two.
\<close>

lemma failure_test_limit_1:
  "fst (testFailureHanding [0, 1, 2, 3] (served (\<lambda>u. u) every_five_seconds) nap (0, quick_server 1)) = Wait"
  by code_simp

lemma failure_test_limit_2:
  "fst (testFailureHanding [0, 1, 2, 3] (served (\<lambda>u. u) every_five_seconds) nap (0, quick_server 2)) = Return 0"
  by code_simp

end
