(* ===== verification/Server_Errors.thy ===== *)
theory Server_Errors
  imports Server_Lemmas
begin

text \<open>
  The texts of the exceptions that reach a \<open>catch\<close> clause of a handler: they are plain, so the
  error document that is built from them without escaping is well formed.
\<close>

section \<open>Parse errors\<close>

definition tame :: "'a parsed \<Rightarrow> bool" where
  "tame r \<longleftrightarrow> (case r of Failed msg k \<Rightarrow> plain msg | _ \<Rightarrow> True)"

lemma tame_simps [simp]:
  "tame (Parsed v r)" "tame (Failed msg k) \<longleftrightarrow> plain msg" "tame Overread" "tame No_fuel"
  by (simp_all add: tame_def)

lemma tame_if: "(b \<Longrightarrow> tame x) \<Longrightarrow> (\<not> b \<Longrightarrow> tame y) \<Longrightarrow> tame (if b then x else y)"
  by simp

lemma tame_bind: "tame r \<Longrightarrow> (\<And>x s. r = Parsed x s \<Longrightarrow> tame (f x s)) \<Longrightarrow> tame (bind_parsed r f)"
  by (cases r) simp_all

lemma plain_capitals [simp]:
  "plain_char CHR ''A''" "plain_char CHR ''D''" "plain_char CHR ''I''" "plain_char CHR ''K''" "plain_char CHR ''N''"
  "plain_char CHR ''Q''" "plain_char CHR ''U''" "plain_char CHR ''V''" "plain_char CHR '':''" "plain_char CHR ''_''"
  "plain_char CHR ''>''" "plain_char CHR ''0''"
  by (simp_all add: plain_char_def)

lemma plain_messages [simp]:
  "plain ''Invalid character''" "plain ''Invalid value''" "plain ''Invalid key string''"
  "plain ''Invalid unicode escape sequence''" "plain ''Unterminated value''" "plain ''Unterminated object''"
  "plain ''Unterminated array''"
  by (simp_all add: plain_char_def)

lemma tame_hex4: "tame (hex4 ho s)"
proof -
  have "tame (hex_check ks s)" for ks
    by (induction ks s rule: hex_check.induct)
      (auto simp: hex_at_def intro!: tame_bind split: list.splits option.splits)
  then show ?thesis by (simp add: hex4_def tame_bind)
qed

lemma tame_parse_chars: "tame (parse_chars ho start acc s)"
proof (induction ho start acc s rule: parse_chars.induct)
  case (2 ho start acc c cs)
  show ?case
  proof (cases "c = CHR 0x5C")
    case False
    then show ?thesis using 2(3) by simp
  next
    case True
    show ?thesis
    proof (cases cs)
      case (Cons e es)
      show ?thesis
        using 2(1,2)[OF True Cons] True
        by (auto simp: Cons intro!: tame_bind tame_hex4 split: option.split)
    qed (simp add: True)
  qed
qed simp

lemma tame_parseString [simp]: "tame (parseString ho s)"
  by (simp add: parseString_def tame_parse_chars)

lemma tame_value_round:
  assumes "\<And>b x. tame (pv b x)" and "\<And>b t l w x. tame (po b t l w x)" and "\<And>b t ws x. tame (pa b t ws x)"
  shows "tame (value_round ho pv po pa a s)"
proof (cases s)
  case (Cons c cs)
  show ?thesis
    unfolding value_round_def Cons list.case keyword_def parseNumber_def
    by (intro tame_if assms tame_bind tame_parseString; simp only: tame_simps plain_messages)
qed (simp add: value_round_def)

lemma tame_object_round:
  assumes "\<And>b x. tame (pv b x)" and "\<And>b t l w x. tame (po b t l w x)"
  shows "tame (object_round ho pv po a st k m s)"
proof (cases s)
  case (Cons c cs)
  show ?thesis
    unfolding object_round_def Cons by (cases st) (simp_all add: tame_bind assms)
qed (simp add: object_round_def)

lemma tame_array_round:
  assumes "\<And>b x. tame (pv b x)" and "\<And>b t ws x. tame (pa b t ws x)"
  shows "tame (array_round pv pa a st vs s)"
proof (cases s)
  case (Cons c cs)
  show ?thesis
    unfolding array_round_def Cons by (cases st) (simp_all add: tame_bind assms)
qed (simp add: array_round_def)

lemma parsers_tame:
  "tame (parse_value ho f a s) \<and> tame (parse_object ho f a st k m s) \<and> tame (parse_array ho f a st vs s)"
proof (induction f arbitrary: s a st k m vs)
  case (Suc f)
  then have V: "tame (parse_value ho f b x)" and O: "tame (parse_object ho f b t l w x)"
    and A: "tame (parse_array ho f b t ws x)" for x b t l w ws by blast+
  show ?case
    unfolding parse_value.simps parse_object.simps parse_array.simps
    by (intro conjI tame_value_round tame_object_round tame_array_round V O A)
qed simp

lemma tame_parse_document: "tame (parse_document ho f st v s)"
proof (induction f arbitrary: st v s)
  case (Suc f)
  show ?case
  proof (cases s)
    case (Cons c cs)
    show ?thesis
      unfolding parse_document.simps document_round_def Cons
      by (cases st) (auto simp: parsers_tame intro!: tame_if tame_bind Suc.IH)
  qed (simp add: document_round_def)
qed simp

section \<open>Outcomes\<close>

definition tame_outcome :: "'a outcome \<Rightarrow> bool" where
  "tame_outcome r \<longleftrightarrow> (\<forall>e. r = Throw e \<longrightarrow> plain (what e))"

lemma tame_outcome_simps [simp]:
  "tame_outcome (Return x)" "tame_outcome Wait" "tame_outcome Undefined"
  "tame_outcome (Throw e) \<longleftrightarrow> plain (what e)"
  by (simp_all add: tame_outcome_def)

lemma tame_outcome_bind: "tame_outcome r \<Longrightarrow> (\<And>x. tame_outcome (f x)) \<Longrightarrow> tame_outcome (bind_outcome r f)"
  by (cases r) simp_all

lemma what_simps [simp]: "what (runtime_error m) = m" "what (length_error m) = m" "what (logic_error m) = m"
  by (simp_all add: what_def)

lemma tame_fromString: "tame_outcome (fromString ho s)"
  using tame_parse_document[of ho "parse_fuel (c_str s)" PS_SEEK_BEG VT_NULL "c_str s"]
  by (auto simp: fromString_def Let_def what_def plain_char_def split: parsed.split)

lemma plain_type_name [simp]: "plain (getTypeString v)"
  by (cases v) (simp_all add: getTypeString_def getType_def plain_char_def)

lemma plain_conversion [simp]:
  "plain t \<Longrightarrow> plain (what (typeConversionError v t))"
  "plain k \<Longrightarrow> plain t \<Longrightarrow> plain (what (typeConversionError_key v k t))"
  by (simp_all add: typeConversionError_def typeConversionError_key_def plain_char_def)

lemma plain_key_not_found [simp]: "plain k \<Longrightarrow> plain (what (key_not_found k))"
  by (simp add: key_not_found_def plain_char_def)

lemma tame_reads:
  "plain (what e) \<Longrightarrow> tame_outcome (read_bool v e)" "plain (what e) \<Longrightarrow> tame_outcome (read_number v e)"
  "plain (what e) \<Longrightarrow> tame_outcome (read_string v e)" "plain (what e) \<Longrightarrow> tame_outcome (read_object v e)"
  "plain (what e) \<Longrightarrow> tame_outcome (read_array v e)"
  by (cases v; simp add: read_bool_def read_number_def read_string_def read_object_def read_array_def)+

lemma tame_accessors:
  "tame_outcome (Value_asObject v)" "tame_outcome (Value_asArray v)" "tame_outcome (Value_asString v)"
  "tame_outcome (Value_asNumber v)"
  "plain k \<Longrightarrow> tame_outcome (Object_getString obj k)" "plain k \<Longrightarrow> tame_outcome (Object_getNumber obj k)"
  by (auto simp: Value_asObject_def Value_asArray_def Value_asString_def Value_asNumber_def Object_getString_def
      Object_getNumber_def plain_char_def intro!: tame_reads split: option.split)

lemma tame_casts: "tame_outcome (cast_u8 d)" "tame_outcome (cast_size_t d)"
  by (simp_all add: cast_u8_def cast_size_t_def)

lemma tame_has:
  assumes "plain k"
  shows "tame_outcome (case Object_has obj k of (found, obj1) \<Rightarrow> if found then Object_asBool obj1 else Return b)"
    and "tame_outcome (case Object_has obj k of (found, obj1) \<Rightarrow> if found then Object_asNumber obj1 else Return d)"
  using assms by (auto simp: Object_has_def Object_asBool_def Object_asNumber_def at_iter_def plain_char_def
      intro!: tame_reads split: option.split)

section \<open>The calls that the handlers protect\<close>

lemma eval_args_in:
  "(\<And>k. tame_outcome (parts k)) \<Longrightarrow> tame_outcome (eval_args ao parts)"
  by (induction ao) (auto intro: tame_outcome_bind)

lemma tame_args3: "tame_outcome a \<Longrightarrow> tame_outcome b \<Longrightarrow> tame_outcome c \<Longrightarrow> tame_outcome (args3 ao a b c)"
  by (auto simp: args3_def returns_def intro!: tame_outcome_bind eval_args_in)

lemma tame_args4:
  "tame_outcome a \<Longrightarrow> tame_outcome b \<Longrightarrow> tame_outcome c \<Longrightarrow> tame_outcome d \<Longrightarrow> tame_outcome (args4 ao a b c d)"
  by (auto simp: args4_def returns_def intro!: tame_outcome_bind eval_args_in)

lemma plain_parts [simp]:
  "plain ''id''" "plain ''pri''" "plain ''tok''" "plain ''que''" "plain ''del''"
  by simp_all

lemma tame_push_args: "tame_outcome (push_args ao m msg)"
  by (auto simp: push_args_def intro!: tame_args3 tame_outcome_bind tame_accessors tame_casts)

lemma tame_ack_args: "tame_outcome (ack_args ao obj)"
  unfolding ack_args_def by (intro tame_args4 tame_outcome_bind tame_accessors tame_casts tame_has plain_parts)

lemma tame_push: "tame_outcome (fst (push q i pr d now now'))"
  by (auto simp: push_def Let_def plain_char_def split: prod.split)

lemma tame_ack: "tame_outcome (fst (ack q i tok rq d now))"
  by (cases rule: ackImpl_cases[of q i tok rq d now]) (simp_all add: ack_def plain_char_def)

lemma tame_popImpl: "tame_outcome (fst (popImpl q now rnd))"
  by (auto simp: popImpl_def Let_def plain_char_def split: option.split)

lemma tame_push_loop: "tame_outcome (fst (push_loop ao env clock n ms q))"
proof (induction ao env clock n ms q rule: push_loop.induct)
  case (2 ao env clock n m ms q)
  show ?case
  proof (cases "Value_asObject m")
    case (Return msg)
    let ?msg = "snd (Object_has (snd (Object_has (snd (Object_has msg ''id'')) ''pri'')) ''del'')"
    show ?thesis
    proof (cases "snd (snd (getCounts q)) = 0")
      case False
      show ?thesis
      proof (cases "push_args ao m ?msg")
        case (Return a)
        obtain i pr d where a: "a = (i, pr, d)" by (cases a)
        obtain r q2 where p: "push (env q) i pr d (fst (clock n)) (snd (clock n)) = (r, q2)" by fastforce
        then have "tame_outcome r" using tame_push[of "env q" i pr d "fst (clock n)" "snd (clock n)"] by simp
        then show ?thesis
          using 2[OF \<open>Value_asObject m = Return msg\<close> refl False refl Return] Return False p
          by (cases r) (simp_all add: \<open>Value_asObject m = Return msg\<close> a Let_def)
      qed (use False Return tame_push_args[of ao m ?msg] in \<open>simp_all add: Let_def\<close>)
    qed (simp add: Return Let_def)
  qed (use tame_accessors(1)[of m] in simp_all)
qed simp

section \<open>Error replies\<close>

definition error_object :: "string \<Rightarrow> Object" where
  "error_object m = Object [(''message'', VT_STRING m), (''type'', VT_STRING ''error'')] It_end"

lemma fromString_error_reply:
  assumes "plain (what e)"
  shows "fromString ho (resp_body (error_reply e)) = Return (VT_OBJECT (error_object (what e)))"
proof -
  let ?ms = "[str_member ''type'' ''error'', str_member ''message'' (what e)]"
  have "object_of ?ms = VT_OBJECT (error_object (what e))"
    by (simp add: object_of_def put_member_def str_member_def error_object_def)
  moreover have "resp_body (error_reply e) = object_text ?ms"
    by (simp add: error_reply_def sendResponse_def object_text_def member_text_def str_member_def quoted_def)
  moreover have "fromString ho (object_text ?ms) = Return (object_of ?ms)"
    using assms by (intro fromString_object) auto
  ultimately show ?thesis by simp
qed

text \<open>What a handler may answer: success, a refusal of the method or path, or a plain error.\<close>

definition answer_ok :: "http_response outcome \<Rightarrow> bool" where
  "answer_ok r \<longleftrightarrow> (\<forall>s. r = Return s \<longrightarrow> resp_status s \<noteq> HTTP_BAD_REQUEST \<or> (\<exists>e. s = error_reply e \<and> plain (what e)))"

lemma answer_ok_simps [simp]:
  "answer_ok (Throw e)" "answer_ok Wait" "answer_ok Undefined"
  "resp_status s \<noteq> HTTP_BAD_REQUEST \<Longrightarrow> answer_ok (Return s)"
  by (simp_all add: answer_ok_def)

lemma statuses [simp]:
  "resp_status (sendResponse p s) = s" "resp_status not_allowed = HTTP_METHOD_NOT_ALLOWED"
  "resp_status (ids_reply k is) = HTTP_OK"
  by (simp_all add: sendResponse_def not_allowed_def ids_reply_def)

lemma answer_ok_catching:
  "tame_outcome (fst r) \<Longrightarrow> answer_ok (fst r) \<Longrightarrow> answer_ok (fst (catching r))"
  by (cases r; cases "fst r") (auto simp: catching_def answer_ok_def)

lemma answer_ok_send: "answer_ok (fst (send_popped env r))" "tame_outcome (fst r) \<Longrightarrow> tame_outcome (fst (send_popped env r))"
  by (cases r; cases "fst r"; simp add: send_popped_def Let_def)+

lemma tame_ack_call: "tame_outcome (fst (ack_call ho ao now r q))"
proof -
  have "tame_outcome (bind_outcome (bind_outcome (fromString ho (readBody r)) Value_asObject) (ack_args ao))"
    by (intro tame_outcome_bind tame_fromString tame_accessors tame_ack_args)
  then show ?thesis
    using tame_ack by (auto simp: ack_call_def split: outcome.splits prod.splits)
qed

lemma tame_fst: "tame_outcome (fst r) \<Longrightarrow> r = (x, y) \<Longrightarrow> tame_outcome x"
  by simp

lemma answer_ok_bind: "answer_ok (bind_outcome r (\<lambda>_. Return (sendResponse None HTTP_OK)))"
  by (cases r) simp_all

lemma handlers_answer_ok:
  "answer_ok (fst (PushRequest ho ao env clock r q))" "answer_ok (fst (PopRequest env now rnd r q))"
  "answer_ok (fst (AckRequest ho ao now r q))" "answer_ok (fst (PopAckRequest ho ao env env' now now' rnd r q))"
  "answer_ok (fst (EraseFailedRequest ho r q))"
proof -
  have "tame_outcome (bind_outcome (fromString ho (readBody r)) Value_asArray)"
    by (intro tame_outcome_bind tame_fromString tame_accessors)
  then show "answer_ok (fst (PushRequest ho ao env clock r q))"
    by (cases "bind_outcome (fromString ho (readBody r)) Value_asArray")
      (auto simp: PushRequest_def split: prod.split intro!: answer_ok_catching answer_ok_bind tame_outcome_bind
        intro: tame_push_loop[of ao env clock 0 _ q, THEN tame_fst])
  show "answer_ok (fst (PopRequest env now rnd r q))" by (simp add: PopRequest_def answer_ok_send)
  show "answer_ok (fst (AckRequest ho ao now r q))"
    using tame_ack_call[of ho ao now r q]
    by (auto simp: AckRequest_def split: prod.split intro!: answer_ok_catching answer_ok_bind tame_outcome_bind)
  show "answer_ok (fst (PopAckRequest ho ao env env' now now' rnd r q))"
    using tame_ack_call[of ho ao now r q]
    by (auto simp: PopAckRequest_def pop_def split: prod.split outcome.split
      intro!: answer_ok_catching answer_ok_send tame_popImpl)
  have "tame_outcome (strings_of vs)" for vs
    by (induction vs) (auto intro!: tame_outcome_bind tame_accessors)
  then have "tame_outcome (bind_outcome (bind_outcome (fromString ho (readBody r)) Value_asArray) strings_of)"
    by (intro tame_outcome_bind tame_fromString tame_accessors)
  then show "answer_ok (fst (EraseFailedRequest ho r q))"
    by (auto simp: EraseFailedRequest_def split: prod.split outcome.split intro!: answer_ok_catching)
qed

end
