(* ===== verification/Server_Props.thy ===== *)
theory Server_Props
  imports Client_Runs Server_Errors Queue_Props
begin

text \<open>
  The properties of the HTTP interface: what a client sees of the queue through the requests,
  and where requests and replies do not do what they are meant to.
\<close>

section \<open>Publishing and consuming through HTTP\<close>


definition demo_environment :: environment where
  "demo_environment = \<lparr> hex_order = [3, 1, 0, 2], arg_order = [2, 0, 1, 3], push_clock = (\<lambda>n. (0, 0)),
     ack_now = 20, pop_now = 10, random_token = 7, others = (\<lambda>q. q), others_reply = (\<lambda>q. q) \<rparr>"

lemma demo_alone: "alone (\<lambda>n. demo_environment)" "path_of_path (\<lambda>u. u)"
  by (simp_all add: alone_def demo_environment_def path_of_path_def)


section \<open>Publishing with a delay\<close>

text \<open>An element of the array with a delay.\<close>

definition delayed_item :: "string \<Rightarrow> nat \<Rightarrow> nat \<Rightarrow> json_member list" where
  "delayed_item i pr d = [str_member ''id'' i, num_member ''pri'' pr, num_member ''del'' d]"

lemma delayed_item_value:
  "object_of (delayed_item i pr d) = VT_OBJECT (Object [(''del'', VT_NUMBER (dbl_of_ratio (int d) 1)),
     (''id'', VT_STRING i), (''pri'', VT_NUMBER (dbl_of_ratio (int pr) 1))] It_end)"
  by (simp add: object_of_def delayed_item_def put_member_def str_member_def num_member_def)

lemma fromString_one:
  assumes "\<forall>e \<in> set ms. member_ok ho e" and "\<forall>e \<in> set ms. no_NUL (member_text e)"
  shows "fromString ho (''['' @ object_text ms @ '']'') = Return (VT_ARRAY [object_of ms])"
  using objects.array_document[of "[ms]" ho] assms by (intro fromString_text) simp_all

lemma eval_args_or: "(\<And>k. parts k = Return () \<or> parts k = r) \<Longrightarrow> r \<noteq> Return () \<Longrightarrow> eval_args ao parts \<in> {Return (), r}"
proof (induction ao)
  case (Cons k ks)
  then have "eval_args ks parts = Return () \<or> eval_args ks parts = r" by simp
  moreover have "parts k = Return () \<or> parts k = r" by (rule Cons.prems(1))
  ultimately show ?case by (cases r) auto
qed simp

lemma args3_Throw_last [simp]: "args3 ao (Return a) (Return b) (Throw e :: 'c outcome) = Throw e"
proof -
  let ?parts = "\<lambda>k :: nat. if k = 0 then returns (Return a) else if k = 1 then returns (Return b) else returns (Throw e :: 'c outcome)"
  have "eval_args ao ?parts \<in> {Return (), Throw e}" by (rule eval_args_or) (simp_all add: returns_def)
  then show ?thesis by (auto simp: args3_def)
qed

text \<open>C20. A message published with a delay is always rejected: the handler converts the element
  of the array instead of its field, so the reply is an error that names an object, whatever the
  delay, and the queue is left as other threads left it.\<close>

theorem push_with_delay_rejected:
  assumes "plain i" and "pr < 256" and "queue_ok q" and "length (m_msg_map q) < unat (m_capacity q)"
  shows "PushRequest ho ao env clock
      (client_request ''POST'' ''/push'' (Some (''['' @ object_text (delayed_item i pr d) @ '']''))) q
    = (Return (error_reply (runtime_error ''Invalid conversion of OBJECT to number'')), env q)"
proof -
  let ?m = "VT_OBJECT (Object [(''del'', VT_NUMBER (dbl_of_ratio (int d) 1)),
     (''id'', VT_STRING i), (''pri'', VT_NUMBER (dbl_of_ratio (int pr) 1))] It_end)"
  have "fromString ho (''['' @ object_text (delayed_item i pr d) @ '']'') = Return (VT_ARRAY [?m])"
    using assms(1) unfolding delayed_item_value[symmetric]
    by (intro fromString_one) (auto simp: delayed_item_def)
  moreover have "snd (snd (getCounts q)) \<noteq> 0" using free_zero_iff[OF assms(3)] assms(4) by simp
  moreover have "cast_u8 (dbl_of_ratio (int pr) 1) = Return (word_of_nat pr)"
    using cast_exact(2)[of pr] assms(2) by simp
  ultimately show ?thesis
    by (simp add: PushRequest_def Value_asArray_def read_array_def Value_asObject_def read_object_def Let_def
        push_args_def Object_has_def Object_getString_def Object_getNumber_def map_find_def read_string_def
        read_number_def Value_asNumber_def typeConversionError_def getTypeString_def getType_def catching_def)
qed

lemma push_with_delay_rejected_witness:
  "PushRequest [] [2, 1, 0] (\<lambda>q. q) (\<lambda>n. (0, 0))
     (client_request ''POST'' ''/push'' (Some (''['' @ object_text (delayed_item ''x'' 1 500) @ '']''))) demo_run
    = (Return (error_reply (runtime_error ''Invalid conversion of OBJECT to number'')), demo_run)"
proof -
  have "length (m_msg_map demo_run) < unat (m_capacity demo_run)" by code_simp
  then show ?thesis
    using push_with_delay_rejected[of "''x''" 1 demo_run "[]" "[2, 1, 0]" "\<lambda>q. q"] reachable_ok[OF demo_reachable(3)]
    by simp
qed

section \<open>Acknowledging\<close>

lemma holding_iff:
  "holding q i tok \<longleftrightarrow> (\<exists>p. map_find (m_msg_map q) i = Some p \<and> msg_token (message (entry q p)) = tok \<and>
     state (entry q p) = MSG_RUNNING)"
  by (auto simp: holding_def)

lemma ack_not_holding:
  assumes "\<not> holding q i tok"
  shows "\<exists>msg \<in> {''No message found matching ID'', ''Invalid message token'', ''Invalid message state''}.
    ack q i tok rq d now = (Throw (runtime_error msg), q)"
  by (cases rule: ackImpl_cases[of q i tok rq d now]) (use assms in \<open>auto simp: ack_def holding_iff\<close>)

text \<open>C25. An acknowledgement sent over HTTP removes exactly the message it names, and only when
  the message is running under the token sent; any other one is answered with an error document
  that carries the reason, and the queue does not change.\<close>

theorem ack_request_outcome:
  assumes "reachable_queue q" and "plain i" and "plain tok"
  shows "if holding q i tok
    then \<exists>q'. AckRequest ho ao now (client_request ''POST'' ''/ack'' (Some (ack_body i tok))) q
        = (Return (sendResponse None HTTP_OK), q') \<and>
      map_find (m_msg_map q') = (map_find (m_msg_map q))(i := None) \<and> lane_ids q' = lane_ids q
    else \<exists>msg \<in> {''No message found matching ID'', ''Invalid message token'', ''Invalid message state''}.
      AckRequest ho ao now (client_request ''POST'' ''/ack'' (Some (ack_body i tok))) q
        = (Return (error_reply (runtime_error msg)), q)"
proof (cases "holding q i tok")
  case True
  from ack_holding[OF reachable_ok[OF assms(1)] this, of 0 now] True show ?thesis
    by (auto simp: AckRequest_def ack_call_plain[OF assms(2,3)] catching_def)
next
  case False
  from ack_not_holding[OF this, of False 0 now] False show ?thesis
    by (auto simp: AckRequest_def ack_call_plain[OF assms(2,3)] catching_def)
qed

lemma demo_holding: "holding demo_run ''a'' ''7''" "\<not> holding demo_run ''a'' ''8''"
  using demo_find demo_running by (auto simp: holding_def)

lemma ack_request_outcome_witness:
  "(\<exists>q'. AckRequest [] [] 30 (client_request ''POST'' ''/ack'' (Some (ack_body ''a'' ''7''))) demo_run
      = (Return (sendResponse None HTTP_OK), q') \<and> map_find (m_msg_map q') ''a'' = None) \<and>
   snd (AckRequest [] [] 30 (client_request ''POST'' ''/ack'' (Some (ack_body ''a'' ''8''))) demo_run) = demo_run"
proof -
  have "plain ''a''" "plain ''7''" "plain ''8''" by (simp_all add: plain_char_def)
  with ack_request_outcome[OF demo_reachable(3), of "''a''" "''7''" "[]" "[]" 30]
    ack_request_outcome[OF demo_reachable(3), of "''a''" "''8''" "[]" "[]" 30]
  show ?thesis using demo_holding by auto
qed

section \<open>Monitoring\<close>

lemma dbl_zero_trunc: "\<not> cast_bool d \<Longrightarrow> dbl_trunc d = 0"
proof -
  assume "\<not> cast_bool d"
  then have z: "take_bit 63 (uint d) = 0" by (simp add: cast_bool_def)
  have "take_bit 52 (take_bit 63 (uint d)) = take_bit 52 (uint d)" by simp
  moreover have "take_bit 11 (drop_bit 52 (take_bit 63 (uint d))) = take_bit 11 (drop_bit 52 (uint d))"
    by (simp add: drop_bit_take_bit)
  ultimately show ?thesis
    using z by (simp add: dbl_trunc_def dbl_significand_def dbl_fraction_def dbl_exponent_def Let_def)
qed

lemma dbl_equal_int:
  assumes "m < 2 ^ 53" and "n < 2 ^ 53"
  shows "dbl_equal (dbl_of_ratio (int m) 1) (dbl_of_ratio (int n) 1) \<longleftrightarrow> m = n"
proof -
  have t: "dbl_finite (dbl_of_ratio (int k) 1) \<and> dbl_trunc (dbl_of_ratio (int k) 1) = int k" if "k < 2 ^ 53" for k
    using dbl_of_int_exact[of "int k"] that by simp
  show ?thesis
  proof
    assume "dbl_equal (dbl_of_ratio (int m) 1) (dbl_of_ratio (int n) 1)"
    then show "m = n"
      using t[OF assms(1)] t[OF assms(2)] dbl_zero_trunc[of "dbl_of_ratio (int m) 1"] dbl_zero_trunc[of "dbl_of_ratio (int n) 1"]
      unfolding dbl_equal_def by (metis of_nat_eq_iff)
  qed (use t[OF assms(1)] in \<open>simp add: dbl_equal_def\<close>)
qed

lemma dbl_of_size_nat: "dbl_of_size n = dbl_of_ratio (int (unat n)) 1"
  by (simp add: dbl_of_size_def)

lemma dbl_equal_size:
  "unat m < 2 ^ 53 \<Longrightarrow> unat n < 2 ^ 53 \<Longrightarrow> dbl_equal (dbl_of_size m) (dbl_of_size n) \<longleftrightarrow> unat m = unat n"
  unfolding dbl_of_size_nat by (rule dbl_equal_int)

definition counts_object :: "u64 \<Rightarrow> u64 \<Rightarrow> u64 \<Rightarrow> u64 \<Rightarrow> Object" where
  "counts_object capacity active failed free =
     Object [(''active'', VT_NUMBER (dbl_of_size active)), (''capacity'', VT_NUMBER (dbl_of_size capacity)),
       (''failed'', VT_NUMBER (dbl_of_size failed)), (''free'', VT_NUMBER (dbl_of_size free)),
       (''type'', VT_STRING ''count'')] It_end"

lemma fromString_counts:
  assumes "getCounts q = (active, failed, free)" and "req_method r = ''GET''"
  shows "fromString ho (resp_body (CountRequest r q)) = Return (VT_OBJECT (counts_object (getCapacity q) active failed free))"
proof -
  let ?ms = "[str_member ''type'' ''count'', num_member ''capacity'' (unat (getCapacity q)),
    num_member ''active'' (unat active), num_member ''failed'' (unat failed), num_member ''free'' (unat free)]"
  have "object_of ?ms = VT_OBJECT (counts_object (getCapacity q) active failed free)"
    by (simp add: object_of_def put_member_def str_member_def num_member_def counts_object_def dbl_of_size_nat)
  moreover have "fromString ho (object_text ?ms) = Return (object_of ?ms)"
    by (rule fromString_object) auto
  ultimately show ?thesis by (simp add: CountRequest_text[OF assms] sendResponse_def)
qed

lemma check_field:
  "map_find (m_map obj) k = Some (VT_NUMBER d) \<Longrightarrow>
     check_count_field k None obj = Return () \<and>
     check_count_field k (Some n) obj = (if dbl_equal d (dbl_of_size n) then Return ()
       else Throw (runtime_error ([CHR 0x27] @ k @ [CHR 0x27] @ '' has wrong value'')))"
  by (simp add: check_count_field_def Object_has_def Object_type_def Object_asNumber_def at_iter_def getType_def read_number_def)

lemma check_counts_object:
  "check_counts a f (VT_OBJECT (counts_object c active failed free)) = Return ()
     \<longleftrightarrow> dbl_equal (dbl_of_size active) (dbl_of_size a) \<and> dbl_equal (dbl_of_size failed) (dbl_of_size f)"
  "\<exists>r \<in> {Return (), Throw (runtime_error (CHR 0x27 # ''active'' @ CHR 0x27 # '' has wrong value'')),
      Throw (runtime_error (CHR 0x27 # ''failed'' @ CHR 0x27 # '' has wrong value''))}.
    check_counts a f (VT_OBJECT (counts_object c active failed free)) = r"
  by (auto simp: check_counts_def Value_asObject_def read_object_def Object_has_def counts_object_def map_find_def
      Object_asString_def at_iter_def read_string_def check_field)

lemma count_reply:
  assumes "path_of_path uri_path" and "getCounts q = (active, failed, free)"
  shows "doRequest ho (served uri_path w) (client_request ''GET'' ''/count'' None) reply (n, q)
    = (Return (VT_OBJECT (counts_object (getCapacity q) active failed free)), (n + 1, q))"
proof -
  let ?r = "client_request ''GET'' ''/count'' None"
  have "resp_body (CountRequest ?r q) \<noteq> []" "resp_status (CountRequest ?r q) = HTTP_OK"
    by (simp_all add: CountRequest_text[OF assms(2)] sendResponse_def object_text_def)
  then show ?thesis
    using fromString_counts[OF assms(2), of ?r ho]
    by (simp add: doRequest_def served_def handleRequest_def routes[OF assms(1)] read_reply_def)
qed

text \<open>C23. The client's test of the counters succeeds exactly when the active and failed messages
  it expects are those of the queue: the numbers survive printing, parsing and the conversion to
  floating point, and asking for them changes nothing.\<close>

theorem count_test_exact:
  assumes "path_of_path uri_path" and "reachable_queue q" and "unat (getCapacity q) < 2 ^ 53"
    and "unat active < 2 ^ 53" and "unat failed < 2 ^ 53"
  shows "testCount ho (served uri_path w) active failed (n, q) =
    (Return (if unat active = card {p \<in> live q. state (entry q p) \<noteq> MSG_FAILED} \<and>
       unat failed = card {p \<in> live q. state (entry q p) = MSG_FAILED} then 0 else 1), (n + 1, q))"
proof -
  obtain a f free where c: "getCounts q = (a, f, free)" by (cases "getCounts q") auto
  note cards = getCounts_cards[OF reachable_ok[OF assms(2)] c]
  have "unat a < 2 ^ 53" "unat f < 2 ^ 53" using cards assms(3) by linarith+
  then have "dbl_equal (dbl_of_size a) (dbl_of_size active) \<longleftrightarrow> unat a = unat active"
    "dbl_equal (dbl_of_size f) (dbl_of_size failed) \<longleftrightarrow> unat f = unat failed"
    using assms(4,5) by - (rule dbl_equal_size; assumption)+
  then have ok: "check_counts active failed (VT_OBJECT (counts_object (getCapacity q) a f free)) = Return ()
      \<longleftrightarrow> unat a = unat active \<and> unat f = unat failed"
    by (simp add: check_counts_object(1))
  have "exit_code (check_counts active failed (VT_OBJECT (counts_object (getCapacity q) a f free)))
      = Return (if unat a = unat active \<and> unat f = unat failed then 0 else 1)"
    using ok check_counts_object(2)[of active failed "getCapacity q" a f free] by (auto simp: exit_code_def)
  then show ?thesis
    using cards by (auto simp: testCount_def count_reply[OF assms(1) c])
qed

lemma count_test_exact_witness:
  "testCount [] (served (\<lambda>u. u) (\<lambda>n. demo_environment)) 2 0 (0, demo_run) = (Return 0, (1, demo_run))"
proof -
  have "getCounts demo_run = (2, 0, 2)" "unat (getCapacity demo_run) = 4" by code_simp+
  with getCounts_cards[OF reachable_ok[OF demo_reachable(3)], of 2 0 2]
    count_test_exact[OF demo_alone(2) demo_reachable(3), of 2 0 "[]" "\<lambda>n. demo_environment" 0]
  show ?thesis by auto
qed

section \<open>Failed messages\<close>

lemma plain_getFailed:
  "queue_ok q \<Longrightarrow> \<forall>i p. map_find (m_msg_map q) i = Some p \<longrightarrow> plain i \<Longrightarrow> \<forall>i \<in> set (getFailed q). plain i"
  by (auto simp: set_getFailed failed_id_def split: option.splits)

text \<open>C24. Round trip of the failed messages: the list that the client builds from the reply is the
  list of the failed identifiers, for identifiers that need no escape.\<close>

theorem get_failed_roundtrip:
  assumes "path_of_path uri_path" and "reachable_queue q"
    and "\<forall>i p. map_find (m_msg_map q) i = Some p \<longrightarrow> plain i"
  shows "doGetFailed ho (served uri_path w) (n, q) = (Return (getFailed q), (n + 1, q))"
proof -
  have "\<forall>i \<in> set (getFailed q). plain i" by (rule plain_getFailed[OF reachable_ok[OF assms(2)] assms(3)])
  then have "fromString ho (resp_body (ids_reply ''failed'' (getFailed q))) = Return (VT_OBJECT (ids_object ''failed'' (getFailed q)))"
    by (intro fromString_ids_reply) simp_all
  moreover have "resp_body (ids_reply ''failed'' (getFailed q)) \<noteq> []" "resp_status (ids_reply ''failed'' (getFailed q)) = HTTP_OK"
    by (simp_all add: ids_reply_def sendResponse_def)
  ultimately show ?thesis
    by (simp add: doGetFailed_def doRequest_def served_def handleRequest_def routes[OF assms(1)] GetFailedRequest_def
        read_reply_def ids_object_def Value_asObject_def read_object_def Object_getArray_def map_find_def read_array_def)
qed

lemma demo_failed_plain: "\<forall>i p. map_find (m_msg_map demo_failed) i = Some p \<longrightarrow> plain i"
proof -
  have "map fst (m_msg_map demo_failed) = [''a'', ''b'']" by code_simp
  then have "i \<in> {''a'', ''b''}" if "map_find (m_msg_map demo_failed) i = Some p" for i p
    using that map_of_SomeD[of "m_msg_map demo_failed" i p] by (force simp: map_find_def)
  then show ?thesis by (fastforce simp: plain_char_def)
qed

lemma get_failed_roundtrip_witness:
  "doGetFailed [] (served (\<lambda>u. u) (\<lambda>n. demo_environment)) (0, demo_failed) = (Return [''a'', ''b''], (1, demo_failed))"
proof -
  have "getFailed demo_failed = [''a'', ''b'']" by code_simp
  with get_failed_roundtrip[OF demo_alone(2) demo_failed_reachable demo_failed_plain, of "[]" "\<lambda>n. demo_environment" 0]
  show ?thesis by simp
qed

text \<open>An array in which a quote follows a value is rejected at the quote.\<close>

lemma missing_comma:
  assumes "value_parses ord s w (CHR 0x22 # r)" and "s \<noteq> [] \<and> notWS (hd s) \<and> hd s \<noteq> CHR 0x5D"
  shows "\<exists>f. parse_document ord f PS_SEEK_BEG VT_NULL (CHR 0x5B # s) = Failed ''Invalid character'' (Suc (length r))"
proof -
  obtain f where "\<And>a. parse_value ord f a s = Parsed w (CHR 0x22 # r)"
    using assms(1) unfolding value_parses_def by blast
  then have v: "parse_value ord (Suc f) a s = Parsed w (CHR 0x22 # r)" for a :: nat
    using parse_value_mono[of ord f a s w "CHR 0x22 # r" "Suc f"] by simp
  obtain c cs where s: "s = c # cs" "notWS c" "c \<noteq> CHR 0x5D" using assms(2) by (cases s) auto
  have "parse_array ord (Suc f) a PS_SEEK_SEP [w] (CHR 0x22 # r) = Failed ''Invalid character'' (Suc (length r))" for a
    by (simp add: array_round_def notWS_def)
  then have "parse_array ord (Suc (Suc f)) a PS_SEEK_VAL [] s = Failed ''Invalid character'' (Suc (length r))" for a
    using v s by (simp add: array_round_def del: parse_array.simps(2)) (simp add: array_round_def)
  then have "parse_document ord (Suc (Suc (Suc f))) PS_SEEK_BEG VT_NULL (CHR 0x5B # s)
      = Failed ''Invalid character'' (Suc (length r))"
    by (simp add: document_round_def del: parse_array.simps)
  then show ?thesis by blast
qed

lemma erase_body_no_NUL: "\<forall>i \<in> set ids. plain i \<Longrightarrow> no_NUL (erase_body ids)"
  by (induction ids) (simp_all add: erase_body_def)

lemma fromString_erase_body:
  assumes "\<forall>i \<in> set (i # j # is). plain i"
  shows "fromString ho (erase_body (i # j # is)) = Throw (parse_error ''Invalid character'' (length i + 3))"
proof -
  let ?r = "j @ CHR 0x22 # concat (map quoted is) @ '']''"
  let ?s = "CHR 0x22 # i @ CHR 0x22 # CHR 0x22 # ?r"
  have body: "erase_body (i # j # is) = CHR 0x5B # ?s" by (simp add: erase_body_def quoted_def)
  have "value_parses ho ?s (VT_STRING i) (CHR 0x22 # ?r)"
    using assms by (intro vp_string parseString_plain) simp
  then obtain f where f: "parse_document ho f PS_SEEK_BEG VT_NULL (erase_body (i # j # is))
      = Failed ''Invalid character'' (Suc (length ?r))"
    using missing_comma[of ho ?s "VT_STRING i" ?r] unfolding body by (auto simp: notWS_def)
  have c: "c_str (erase_body (i # j # is)) = erase_body (i # j # is)"
    using erase_body_no_NUL[OF assms] by (intro c_str_id) (auto simp: no_NUL_def)
  have "length (erase_body (i # j # is)) - Suc (length ?r) = length i + 3" by (simp add: body)
  then show ?thesis using fromString_Throw[of ho f "erase_body (i # j # is)"] f by (simp add: c)
qed

lemma fromString_erase_one:
  assumes "\<forall>i \<in> set ids. plain i" and "length ids \<le> 1"
  shows "fromString ho (erase_body ids) = Return (VT_ARRAY (map VT_STRING ids))"
proof (rule fromString_text)
  have "erase_body ids = ''['' @ commas (map quoted ids) @ '']''"
    using assms(2) by (cases ids) (simp_all add: erase_body_def)
  then show "document_parses ho (erase_body ids) (VT_ARRAY (map VT_STRING ids))"
    using strings.array_document[OF assms(1)] by simp
qed (rule erase_body_no_NUL[OF assms(1)])

text \<open>C22. The client's request to erase failed messages works for at most one identifier: it leaves
  out the commas, so with two or more the server rejects the document at the second identifier
  and nothing is erased.\<close>

theorem erase_failed_at_most_one:
  assumes "path_of_path uri_path" and "\<forall>i \<in> set ids. plain i"
  shows "doEraseFailed ho (served uri_path w) ids (n, q) =
    (if length ids \<le> 1 then (Return (), (n + 1, snd (eraseFailed q ids)))
     else (Throw (runtime_error (''Request failed: '' @
         resp_body (error_reply (parse_error ''Invalid character'' (length (hd ids) + 3))))), (n + 1, q)))"
proof (cases "length ids \<le> 1")
  case True
  have "fst (eraseFailed q ids) = [] \<or> fst (eraseFailed q ids) = ids"
    using True by (cases ids) (auto simp: eraseFailed_def Let_def split: option.split)
  then have "\<forall>i \<in> set (fst (eraseFailed q ids)). plain i" using assms(2) by auto
  then have r: "fromString ho (resp_body (ids_reply ''erased'' (fst (eraseFailed q ids))))
      = Return (VT_OBJECT (ids_object ''erased'' (fst (eraseFailed q ids))))"
    by (intro fromString_ids_reply) simp_all
  have "resp_body (ids_reply ''erased'' x) \<noteq> []" "resp_status (ids_reply ''erased'' x) = HTTP_OK" for x
    by (simp_all add: ids_reply_def sendResponse_def)
  with r show ?thesis
    using True fromString_erase_one[OF assms(2) True]
    by (cases "eraseFailed q ids") (simp add: doEraseFailed_def doRequest_def served_def handleRequest_def routes[OF assms(1)]
      EraseFailedRequest_def Value_asArray_def read_array_def catching_def read_reply_def returns_def)
next
  case False
  then obtain i j ks where ids: "ids = i # j # ks" by (cases ids; cases "tl ids") auto
  have "resp_body (error_reply e) \<noteq> []" "resp_status (error_reply e) = HTTP_BAD_REQUEST" for e
    by (simp_all add: error_reply_def sendResponse_def)
  then show ?thesis
    using False assms(2) unfolding ids
    by (simp add: doEraseFailed_def doRequest_def served_def handleRequest_def routes[OF assms(1)] EraseFailedRequest_def
        fromString_erase_body catching_def read_reply_def returns_def)
qed

lemma erase_failed_at_most_one_witness:
  "fst (snd (doEraseFailed [] (served (\<lambda>u. u) (\<lambda>n. demo_environment)) [''a'', ''b''] (0, demo_failed))) = 1 \<and>
   snd (snd (doEraseFailed [] (served (\<lambda>u. u) (\<lambda>n. demo_environment)) [''a'', ''b''] (0, demo_failed))) = demo_failed \<and>
   fst (doEraseFailed [] (served (\<lambda>u. u) (\<lambda>n. demo_environment)) [''b''] (0, demo_failed)) = Return ()"
proof -
  have "\<forall>i \<in> set [''a'', ''b'']. plain i" "\<forall>i \<in> set [''b'']. plain i" by (simp_all add: plain_char_def)
  with erase_failed_at_most_one[OF demo_alone(2), of "[''a'', ''b'']" "[]" "\<lambda>n. demo_environment" 0 demo_failed]
    erase_failed_at_most_one[OF demo_alone(2), of "[''b'']" "[]" "\<lambda>n. demo_environment" 0 demo_failed]
  show ?thesis by simp
qed

section \<open>Every request\<close>

text \<open>C26. Every error reply is a document a client can read: whatever the request, a reply with the
  status of a bad request is the well-formed object with the type \<open>error\<close> and a message.\<close>

theorem error_replies_parse:
  assumes "handleRequest uri_path w r q = (Return s, q')" and "resp_status s = HTTP_BAD_REQUEST"
  shows "\<exists>m. fromString ho (resp_body s) =
    Return (VT_OBJECT (Object [(''message'', VT_STRING m), (''type'', VT_STRING ''error'')] It_end))"
proof -
  have "answer_ok (fst (handleRequest uri_path w r q))"
    by (auto simp: handleRequest_def handlers_answer_ok PingRequest_def CountRequest_def GetFailedRequest_def
        split: option.split Endpoint_t.split prod.split)
  then obtain e where "s = error_reply e" "plain (what e)"
    using assms by (auto simp: answer_ok_def)
  then show ?thesis using fromString_error_reply[of e ho] by (auto simp: error_object_def)
qed

lemma error_replies_parse_witness:
  "\<exists>m. fromString [] (resp_body (error_reply (runtime_error ''Invalid message token''))) =
    Return (VT_OBJECT (Object [(''message'', VT_STRING m), (''type'', VT_STRING ''error'')] It_end))"
proof -
  let ?r = "client_request ''POST'' ''/ack'' (Some (ack_body ''a'' ''8''))"
  have "plain ''a''" "plain ''8''" by (simp_all add: plain_char_def)
  then have "AckRequest [3, 1, 0, 2] [2, 0, 1, 3] 20 ?r demo_run
      = (Return (error_reply (runtime_error ''Invalid message token'')), demo_run)"
    using demo_find demo_running by (simp add: AckRequest_def ack_call_plain ack_def ackImpl_def catching_def)
  then have "handleRequest (\<lambda>u. u) demo_environment ?r demo_run = (Return (error_reply (runtime_error ''Invalid message token'')), demo_run)"
    by (simp add: handleRequest_def routes[OF demo_alone(2)] demo_environment_def)
  then show ?thesis by (rule error_replies_parse) (simp add: error_reply_def)
qed

definition endpoint_method :: "Endpoint_t \<Rightarrow> string" where
  "endpoint_method e = (if e = Route_count \<or> e = Route_failed then ''GET'' else ''POST'')"

text \<open>C27. A request for an unknown path is answered with 404, one with the wrong method for its path
  with 405, both with an empty body and without touching the queue.\<close>

theorem refused_without_effect:
  assumes "map_of m_route_map (uri_path (req_uri r)) = route"
    and "route = None \<or> (\<exists>e. route = Some e \<and> req_method r \<noteq> endpoint_method e)"
  shows "\<exists>s. handleRequest uri_path w r q = (Return s, q) \<and> resp_body s = [] \<and>
    status_code (resp_status s) = (if route = None then 404 else 405)"
proof (cases route)
  case None
  then show ?thesis using assms(1) by (simp add: handleRequest_def sendResponse_def status_code_def)
next
  case (Some e)
  then show ?thesis
    using assms by (cases e) (simp_all add: handleRequest_def endpoint_method_def PingRequest_def PushRequest_def
        PopRequest_def AckRequest_def PopAckRequest_def CountRequest_def GetFailedRequest_def EraseFailedRequest_def
        not_allowed_def sendResponse_def status_code_def)
qed

lemma refused_without_effect_witness:
  "\<exists>s. handleRequest (\<lambda>u. u) demo_environment (client_request ''GET'' ''/pop'' None) demo_run = (Return s, demo_run) \<and>
     status_code (resp_status s) = 405"
  using refused_without_effect[of "\<lambda>u. u" "client_request ''GET'' ''/pop'' None" "Some Route_pop" demo_environment demo_run]
    routes(2)[OF demo_alone(2)]
  by (auto simp: endpoint_method_def)



section \<open>Priorities\<close>

definition priority_item :: "string \<Rightarrow> nat \<Rightarrow> json_member list" where
  "priority_item i n = [str_member ''id'' i, num_member ''pri'' n]"

definition priority_object :: "string \<Rightarrow> nat \<Rightarrow> Object" where
  "priority_object i n = Object [(''id'', VT_STRING i), (''pri'', VT_NUMBER (dbl_of_ratio (int n) 1))] It_end"

lemma priority_item_value: "object_of (priority_item i n) = VT_OBJECT (priority_object i n)"
  by (simp add: object_of_def priority_item_def put_member_def str_member_def num_member_def priority_object_def)

lemma args3_Undefined [simp]: "args3 ao (Return a) (Undefined :: 'b outcome) (Return c) = Undefined"
proof -
  let ?parts = "\<lambda>k :: nat. if k = 0 then returns (Return a) else if k = 1 then returns (Undefined :: 'b outcome) else returns (Return c)"
  have "eval_args ao ?parts \<in> {Return (), Undefined}" by (rule eval_args_or) (simp_all add: returns_def)
  then show ?thesis by (auto simp: args3_def)
qed

lemma push_args_priority:
  assumes "n < 2 ^ 53" and "m_map msg = m_map (priority_object i n)"
  shows "push_args ao m msg = (if n < 256 then Return (i, word_of_nat n, 0) else Undefined)"
proof -
  let ?d = "dbl_of_ratio (int n) 1"
  have "Object_getString msg ''id'' = Return i" "Object_getNumber msg ''pri'' = Return ?d" "\<not> fst (Object_has msg ''del'')"
    using assms(2)
    by (simp_all add: Object_getString_def Object_getNumber_def has_found priority_object_def map_find_def read_string_def
        read_number_def)
  moreover have "cast_u8 ?d = (if n < 256 then Return (word_of_nat n) else Undefined)"
    using dbl_of_int_exact[of "int n"] assms(1) by (simp add: cast_u8_def)
  ultimately show ?thesis by (simp add: push_args_def)
qed

definition priority_request :: "string \<Rightarrow> nat \<Rightarrow> http_request" where
  "priority_request i n = client_request ''POST'' ''/push'' (Some (''['' @ object_text (priority_item i n) @ '']''))"

text \<open>C21. The priority of a published message: one that names a queue is taken as it is, one below
  256 that names none is rejected, and from 256 on the conversion to 8 bits has no defined result
  in C++, before the queue could check the value.\<close>

theorem push_request_priority:
  assumes "reachable_queue q" and "plain i" and "n < 2 ^ 53" and "length (m_msg_map q) < unat (m_capacity q)"
    and "map_find (m_msg_map q) i = None"
  shows "if 256 \<le> n then PushRequest ho ao (\<lambda>q. q) clock (priority_request i n) q = (Undefined, q)
    else if length (m_queue_list q) \<le> n then PushRequest ho ao (\<lambda>q. q) clock (priority_request i n) q
      = (Return (error_reply (runtime_error ''Invalid queue priority'')), q)
    else \<exists>q'. PushRequest ho ao (\<lambda>q. q) clock (priority_request i n) q = (Return (sendResponse None HTTP_OK), q') \<and>
      lane_ids q' = (lane_ids q)[n := lane_ids q ! n @ [i]]"
proof -
  have ok: "queue_ok q" using assms(1) by (rule reachable_ok)
  have parse: "fromString ho (''['' @ object_text (priority_item i n) @ '']'') = Return (VT_ARRAY [VT_OBJECT (priority_object i n)])"
    using assms(2) unfolding priority_item_value[symmetric] by (intro fromString_one) (auto simp: priority_item_def)
  have room: "snd (snd (getCounts q)) \<noteq> 0" using free_zero_iff[OF ok] assms(4) by simp
  have args: "push_args ao m (snd (Object_has (snd (Object_has (snd (Object_has (priority_object i n) ''id'')) ''pri'')) ''del''))
      = (if n < 256 then Return (i, word_of_nat n, 0) else Undefined)" for m
    by (rule push_args_priority[OF assms(3)]) simp
  have u: "n < 256 \<Longrightarrow> unat (word_of_nat n :: u8) = n" by (simp add: unat_of_nat take_bit_nat_eq_self)
  note step = PushRequest_def priority_request_def parse[simplified] Value_asArray_def read_array_def Value_asObject_def read_object_def
    Let_def room args catching_def
  show ?thesis
  proof (cases "256 \<le> n")
    case True
    then show ?thesis by (simp add: step)
  next
    case False
    show ?thesis
    proof (cases "length (m_queue_list q) \<le> n")
      case True
      then have "push q i (word_of_nat n) 0 t t' = (Throw (runtime_error ''Invalid queue priority''), q)" for t t'
        using False by (simp add: push_def u)
      then show ?thesis using False True by (simp add: step)
    next
      case valid: False
      obtain r q' where p: "push q i (word_of_nat n) 0 (fst (clock 0)) (snd (clock 0)) = (r, q')" by fastforce
      have acc: "fst (push q i (word_of_nat n) 0 (fst (clock 0)) (snd (clock 0))) = Return ()"
        using push_accept_iff[OF ok, of i "word_of_nat n" 0 "fst (clock 0)" "snd (clock 0)"] False valid assms(4,5) by (simp add: u)
      with p have r: "r = Return ()" by simp
      have "lane_ids q' = (lane_ids q)[n := lane_ids q ! n @ [i]]"
        using push_lane[OF ok acc] p False by (simp add: u)
      then show ?thesis using False valid p by (simp add: step r)
    qed
  qed
qed

lemma push_request_priority_witness:
  "PushRequest [] [] (\<lambda>q. q) (\<lambda>n. (0, 0)) (priority_request ''x'' 256) demo_run = (Undefined, demo_run) \<and>
   PushRequest [] [] (\<lambda>q. q) (\<lambda>n. (0, 0)) (priority_request ''x'' 2) demo_run
     = (Return (error_reply (runtime_error ''Invalid queue priority'')), demo_run) \<and>
   (\<exists>q'. PushRequest [] [] (\<lambda>q. q) (\<lambda>n. (0, 0)) (priority_request ''x'' 1) demo_run = (Return (sendResponse None HTTP_OK), q'))"
proof -
  have "length (m_msg_map demo_run) < unat (m_capacity demo_run)" "map_find (m_msg_map demo_run) ''x'' = None"
    "length (m_queue_list demo_run) = 2" by code_simp+
  moreover have "plain ''x''" by simp
  ultimately show ?thesis
    using push_request_priority[OF demo_reachable(3), of "''x''" 256 "[]" "[]" "\<lambda>n. (0, 0)"]
      push_request_priority[OF demo_reachable(3), of "''x''" 2 "[]" "[]" "\<lambda>n. (0, 0)"]
      push_request_priority[OF demo_reachable(3), of "''x''" 1 "[]" "[]" "\<lambda>n. (0, 0)"]
    by auto
qed

end
