(* ===== verification/Server_Main.thy ===== *)
theory Server_Main
  imports Server_Model
begin

text \<open>
  The program \<open>mqserver\<close>: what \<open>main\<close> does with the command line. The parser of Boost is outside
  the repository; it is the parameter \<open>parse\<close>, which takes the arguments to the options they set or
  to the error it throws. What is printed is left out.
\<close>

text \<open>The map of options: whether help or the version is asked for, and the values with their defaults.\<close>

record opt_map =
  count_help :: nat
  count_version :: nat
  values_stored :: server_options

text \<open>Errors of the parser: an option it does not know, or any other one, such as a bad value.\<close>

datatype po_error = unknown_option string | other_option_error string

text \<open>How \<open>main\<close> goes on: it returns, an exception ends the process, or the server runs forever.\<close>

datatype main_outcome = Exits nat | Terminates po_error | Serves Queue "16 word"

definition mqserver :: "(string list \<Rightarrow> po_error + opt_map) \<Rightarrow> string list \<Rightarrow> main_outcome" where
  "mqserver parse args =
     (case parse args of
        Inl (unknown_option e) \<Rightarrow> Exits 1
      | Inl (other_option_error e) \<Rightarrow> Terminates (other_option_error e)
      | Inr m \<Rightarrow>
          if count_help m > 0 then Exits 0
          else if count_version m > 0 then Exits 0
          else (case mqserver_main (values_stored m) of (q, p) \<Rightarrow> Serves q p))"

text \<open>The port that is asked for makes no difference: the server opens the same one.\<close>

lemma port_ignored:
  assumes "parse args = Inr m" and "count_help m = 0" and "count_version m = 0"
  shows "\<exists>q. mqserver parse args = Serves q 8080 \<and>
    mqserver (\<lambda>_. Inr (m\<lparr> values_stored := (values_stored m)\<lparr> port := p \<rparr> \<rparr>)) args = Serves q 8080"
  using assms by (simp add: mqserver_def mqserver_main_def QueueServer_create_def)

end
