(* ===== verification/Spec2Isabelle.thy ===== *)
theory Spec2Isabelle
  imports Queue_Props Queue_Destroy Json_Props Server_Props Server_Main
begin

text \<open>
  A verification development of MonitorQueue: a priority message queue that monitors its
  consumers (\<open>server/Queue.hpp\<close>, \<open>server/Queue.cpp\<close>), served over HTTP
  (\<open>server/QueueServer.cpp\<close>, \<open>server/mqserver.cpp\<close>) with a small JSON library
  (\<open>server/libjson.hpp\<close>), and the client that tests it (\<open>server/mqclient.cpp\<close>).

  \<^bold>\<open>The program.\<close> Publishers \<open>push\<close> messages, identified by a string, with a priority and a delay.
  Consumers \<open>pop\<close> them, the highest priority first, and get a token with which they \<open>ack\<close> the
  message, or put it back. A monitor thread puts a message back when its consumer takes too
  long, marks it as failed after too many time-outs, and boosts the priority of messages that
  wait too long. A delay thread releases messages that are due. Failed messages stay until
  they are listed and erased. One mutex protects everything; consumers sleep on a condition
  variable. Each handler of the server turns one HTTP request with a JSON body into calls of
  the queue and the result, or the exception, into a JSON reply. The client builds such
  requests and reads the replies.

  \<^bold>\<open>How the model reads.\<close> Each definition has the name of the function or type it translates,
  without its class where that is unambiguous. State is a record that is passed on: the fields
  of \<open>Queue\<close>, with the heap of message entries as a list and pointers as indices; the fields of
  a request and a reply; the two fields of a JSON object. What a call does is an \<open>outcome\<close>: it
  returns, throws an exception with its text, waits on the condition variable, or runs into
  undefined behaviour. Integers have their width (\<open>8 word\<close>, \<open>64 word\<close>); conversions of doubles
  to integers are undefined out of range, as in C++. Times are unbounded nanoseconds. Readings
  of the clock and random numbers are arguments.

  \<^item> \<open>Prelude\<close>: types, exceptions, outcomes, decimal numbers. \<open>Std_Containers\<close>: \<open>std::map\<close> as an
    association list in the order of keys, \<open>std::multiset\<close>, vectors of deques; the locales
    \<open>ordered_map\<close> and \<open>lane_fifo\<close> state what the queue uses of them. \<open>Transition_Systems\<close>: reachable
    states, invariants, runs and simulations, with the locales \<open>inductive_invariant\<close> and
    \<open>simulation\<close>.
  \<^item> \<open>Queue_Model\<close>: every operation of the class \<open>Queue\<close>, and one round of each of its threads, from
    the return of the wait to the next wait. \<open>Queue_Inv\<close>, \<open>Queue_Preserve\<close>: the invariant that ties
    map, pool, deques, delay set, counters and heap together, kept by every operation.
    \<open>Queue_System\<close>: the queue shared by any number of threads as a step relation, one step per
    critical section, and the counting of wake-ups. \<open>Queue_Effects\<close>, \<open>Queue_Failed\<close>: the effect of each
    operation on single messages and on the failed ones. \<open>Queue_Service\<close>: the order of service.
    \<open>Queue_Spec\<close>: the life cycle of a message as a specification, which the queue refines.
    \<open>Queue_Destroy\<close>: the destructor. \<open>Queue_Props\<close>: the properties of the queue.
  \<^item> \<open>Double\<close>: binary64 numbers as words, their conversions, and \<open>strtod\<close>. \<open>Double_Round\<close>: rounding
    over the reals. \<open>Json_Value\<close>: \<open>libjson::Value\<close> and its class \<open>Object\<close>. \<open>Json_Parse\<close>: the parser
    (\<open>fromString\<close> and the functions it calls). \<open>Json_Fuel\<close>: it ends; \<open>Json_Safe\<close>: it stays inside of the
    text; \<open>Json_Rules\<close>, \<open>Json_Text\<close>: what it accepts, as rules and, in the locale \<open>json_text\<close>, as
    texts of values. \<open>Fpconv\<close>: the conversion of doubles to decimal (Grisu2). \<open>Fpconv_Words\<close>,
    \<open>Fpconv_Cached\<close>, \<open>Fpconv_Bounds\<close>, \<open>Fpconv_Digits\<close>: its arithmetic, the search for the power of ten,
    the bounds of all intermediate values, and that it always yields a text. \<open>Json_Print\<close>: \<open>toString\<close>.
    \<open>Json_Print_Text\<close>: what it writes is read back. \<open>Json_Props\<close>: the properties of the library.
  \<^item> \<open>Server_Model\<close>: the handlers of \<open>QueueServer.cpp\<close>, the table of routes, the constructor of the
    server. \<open>Server_Main\<close>: \<open>main\<close> of \<open>mqserver.cpp\<close>. \<open>Server_Lemmas\<close>: requests and replies as documents.
    \<open>Server_Errors\<close>: the texts of exceptions in replies. \<open>Client_Model\<close>, \<open>Client_Tests\<close>: the requests, the
    tests and \<open>main\<close> of \<open>mqclient.cpp\<close>. \<open>Client_Lemmas\<close>: the client's loops against the handlers.
    \<open>Server_Sessions\<close>: what every request, hence every client, keeps (the locales \<open>queue_predicate\<close>
    and \<open>session_predicate\<close>). \<open>Client_Runs\<close>: whole tests of the client. \<open>Server_Props\<close>: the properties
    seen through HTTP.

  \<^bold>\<open>What is shown.\<close> Of the queue: a message is in exactly one place, the one its state names, after
  any interleaving; consumers get the most urgent message, in the order of publishing; a
  sleeping consumer is never forgotten; a token is accepted once, and not after a time-out;
  a message fails exactly when its time-outs reach the limit and stays failed until it is
  erased; counters and memory are bounded; and every run is a run of the life cycle. Of
  the JSON library: parsing ends, for every text, inside of the text; writing ends, for every
  number, inside of its buffer; what is written is read back. Of the server: requests keep
  every invariant of the queue whatever clients send; each error is a well-formed reply without
  effect; what the client pushes it pops again. Some properties state where the program does
  not do what its comments say: these are named as such in their text.

  \<^bold>\<open>Fuel and bounds.\<close> The parser of a text of length \<open>n\<close> gets \<open>3 * n + 3\<close> units of fuel: each call
  or round consumes a character or is one of at most two that do not between characters
  (\<open>Json_Fuel\<close>). The search for the power of ten gets 87 units, the size of the table: it only moves
  in one direction (\<open>Fpconv_Cached\<close>). The loops of the number conversion that are not bounded by a
  list are partial functions, and \<open>Fpconv_Digits\<close> shows that they return.

  \<^bold>\<open>Assumptions.\<close> Parameters stand for what is not in the repository: \<open>uri_path\<close> for the parsing of
  URIs and \<open>send\<close> for the HTTP session (Poco), \<open>parse\<close> for the command line (Boost), \<open>others\<close> for what
  other threads do between two critical sections of a request, \<open>sleep\<close> for what happens while the
  client sleeps. The order in which operands and arguments are evaluated is a parameter where
  C++ leaves it open. Memory suffices; texts are shorter than 4 GiB; \<open>char\<close> is signed; the locale
  is "C"; arguments of a call are not interleaved (C++17).

  \<^bold>\<open>Not modelled.\<close> What is printed and logged; the measured times; the HTTP server and session of
  Poco and the option parser of Boost; what a value holds after the parser has thrown; the
  programs \<open>test_general.cpp\<close>, \<open>test_delay.cpp\<close> and \<open>test_api.py\<close>, which call the queue in threads with
  sleeps and print what happens. That the digits of the number conversion
  are the shortest that identify the number is not shown, only that they are digits and fit.
\<close>

end
